theory Spec2Isabelle
  imports Main
begin

section \<open>Data model of chess.cpp\<close>

text \<open>
  The C++ type \<open>int\<close> is modelled by the HOL integers. Signed overflow is undefined
  behaviour in C++, so the embedding describes the program on every input whose
  evaluation stays inside the 32-bit range; all board coordinates that the program
  itself produces are tiny.
\<close>

text \<open>\<open>struct BoardCoord { int x; int y; }\<close> with component-wise equality.\<close>

datatype BoardCoord = BoardCoord (coord_x: int) (coord_y: int)

datatype Player = White | Black

datatype PieceType = King | Queen | Rook | Bishop | Knight | Pawn

text \<open>
  A piece object: its dynamic class (the value its virtual \<open>PieceType()\<close> returns) and
  the field \<open>m_player\<close>. Pieces are never modified after construction.
\<close>

datatype Piece = Piece (PieceType: PieceType) (GetPlayer: Player)

text \<open>
  \<open>std::vector<std::shared_ptr<Piece>>\<close>: a cell is \<open>None\<close> for \<open>nullptr\<close>.
\<close>

type_synonym Board = "Piece option list"

text \<open>
  What can stop a call before it returns: \<open>std::vector::at\<close> throws
  \<open>std::out_of_range\<close>, \<open>assert\<close> aborts the process (the Makefile does not define
  \<open>NDEBUG\<close>), and \<open>operator[]\<close> outside the vector is undefined behaviour.
\<close>

datatype error = out_of_range | assertion_failed | undefined_access

text \<open>
  The result of a call: \<open>None\<close> when the call does not terminate, \<open>Some (Inl e)\<close> when
  it is stopped by \<open>e\<close>, \<open>Some (Inr v)\<close> when it returns \<open>v\<close>.
\<close>

type_synonym 'a result = "(error + 'a) option"

abbreviation Returns :: "'a \<Rightarrow> 'a result" where
  "Returns v \<equiv> Some (Inr v)"

abbreviation Throws :: "error \<Rightarrow> 'a result" where
  "Throws e \<equiv> Some (Inl e)"

text \<open>\<open>board.at(i)\<close> with an \<open>int\<close> argument: a negative \<open>i\<close> converts to a huge
  \<open>size_t\<close> and is out of range as well.\<close>

definition board_at :: "Board \<Rightarrow> int \<Rightarrow> error + Piece option" where
  "board_at board i =
     (if 0 \<le> i \<and> i < int (length board) then Inr (board ! nat i) else Inl out_of_range)"

text \<open>\<open>board[i]\<close>: the unchecked read.\<close>

definition board_index :: "Board \<Rightarrow> int \<Rightarrow> error + Piece option" where
  "board_index board i =
     (if 0 \<le> i \<and> i < int (length board) then Inr (board ! nat i) else Inl undefined_access)"

section \<open>Game pieces\<close>

subsection \<open>King\<close>

fun King_IsValidMove :: "Board \<Rightarrow> BoardCoord \<Rightarrow> BoardCoord \<Rightarrow> bool result" where
  "King_IsValidMove board (BoardCoord fx fy) (BoardCoord tx ty) =
     (if tx \<ge> 8 \<or> tx < 0 \<or> ty \<ge> 8 \<or> ty < 0 then Returns False
      else if \<bar>fx - tx\<bar> > 1 \<or> \<bar>fy - ty\<bar> > 1 then Returns False
      else Returns True)"

subsection \<open>The two obstruction loops\<close>

text \<open>
  The \<open>for\<close> loop of \<open>Rook::IsValidMove\<close> (the same text is the second loop of
  \<open>Queen::IsValidMove\<close>), entered with \<open>i = start + step\<close>:
  \<^verbatim>\<open>for (int i = start + step; i != end; i += step) {
      auto piece = (tx != fx) ? board.at(ty * 8 + i) : board.at(i * 8 + tx);
      if (piece != nullptr) return false;
  }
  return true;\<close>
\<close>

partial_function (option) Rook_loop ::
  "Board \<Rightarrow> BoardCoord \<Rightarrow> BoardCoord \<Rightarrow> int \<Rightarrow> int \<Rightarrow> int \<Rightarrow> bool result" where
  "Rook_loop board from to step end i =
     (if i \<noteq> end then
        (case (if coord_x to \<noteq> coord_x from then board_at board (coord_y to * 8 + i)
               else board_at board (i * 8 + coord_x to)) of
           Inl e \<Rightarrow> Throws e
         | Inr piece \<Rightarrow>
             if piece \<noteq> None then Returns False
             else Rook_loop board from to step end (i + step))
      else Returns True)"

declare Rook_loop.simps [code]

text \<open>
  The \<open>while\<close> loop of \<open>Bishop::IsValidMove\<close> (the same text is the first loop of
  \<open>Queen::IsValidMove\<close>):
  \<^verbatim>\<open>while (ix != tx) {
      auto piece = board.at(iy * 8 + ix);
      if (piece != nullptr) return false;
      ix += xstep; iy += ystep;
  }
  return true;\<close>
\<close>

partial_function (option) Bishop_loop ::
  "Board \<Rightarrow> int \<Rightarrow> int \<Rightarrow> int \<Rightarrow> int \<Rightarrow> int \<Rightarrow> bool result" where
  "Bishop_loop board tx xstep ystep ix iy =
     (if ix \<noteq> tx then
        (case board_at board (iy * 8 + ix) of
           Inl e \<Rightarrow> Throws e
         | Inr piece \<Rightarrow>
             if piece \<noteq> None then Returns False
             else Bishop_loop board tx xstep ystep (ix + xstep) (iy + ystep))
      else Returns True)"

declare Bishop_loop.simps [code]

subsection \<open>Queen\<close>

definition Queen_IsValidMove :: "Board \<Rightarrow> BoardCoord \<Rightarrow> BoardCoord \<Rightarrow> bool result" where
  "Queen_IsValidMove board from to =
     (if to = from then Returns False
      else case (from, to) of (BoardCoord fx fy, BoardCoord tx ty) \<Rightarrow>
        if tx \<ge> 8 \<or> tx < 0 \<or> ty \<ge> 8 \<or> ty < 0 then Returns False
        else if \<bar>fx - tx\<bar> = \<bar>fy - ty\<bar> then
          (let xstep = (if fx < tx then 1 else -1);
               ystep = (if fy < ty then 1 else -1);
               ix = fx + xstep;
               iy = fy + ystep
           in Bishop_loop board tx xstep ystep ix iy)
        else if (fx = tx \<and> fy \<noteq> ty) \<or> (fy = ty \<and> fx \<noteq> tx) then
          (let (start, end) = (if tx \<noteq> fx then (fx, tx) else (fy, ty));
               step = (if start < end then 1 else -1)
           in Rook_loop board from to step end (start + step))
        else Returns False)"

subsection \<open>Rook\<close>

definition Rook_IsValidMove :: "Board \<Rightarrow> BoardCoord \<Rightarrow> BoardCoord \<Rightarrow> bool result" where
  "Rook_IsValidMove board from to =
     (if to = from then Returns False
      else case (from, to) of (BoardCoord fx fy, BoardCoord tx ty) \<Rightarrow>
        if tx \<ge> 8 \<or> tx < 0 \<or> ty \<ge> 8 \<or> ty < 0 then Returns False
        else if tx \<noteq> fx \<and> ty \<noteq> fy then Returns False
        else
          (let (start, end) = (if tx \<noteq> fx then (fx, tx) else (fy, ty));
               step = (if start < end then 1 else -1)
           in Rook_loop board from to step end (start + step)))"

subsection \<open>Bishop\<close>

definition Bishop_IsValidMove :: "Board \<Rightarrow> BoardCoord \<Rightarrow> BoardCoord \<Rightarrow> bool result" where
  "Bishop_IsValidMove board from to =
     (if to = from then Returns False
      else case (from, to) of (BoardCoord fx fy, BoardCoord tx ty) \<Rightarrow>
        if tx \<ge> 8 \<or> tx < 0 \<or> ty \<ge> 8 \<or> ty < 0 then Returns False
        else if tx = fx \<or> ty = fy then Returns False
        else if \<bar>fx - tx\<bar> \<noteq> \<bar>fy - ty\<bar> then Returns False
        else
          (let xstep = (if fx < tx then 1 else -1);
               ystep = (if fy < ty then 1 else -1);
               ix = fx + xstep;
               iy = fy + ystep
           in Bishop_loop board tx xstep ystep ix iy))"

subsection \<open>Knight\<close>

fun Knight_IsValidMove :: "Board \<Rightarrow> BoardCoord \<Rightarrow> BoardCoord \<Rightarrow> bool result" where
  "Knight_IsValidMove board (BoardCoord fx fy) (BoardCoord tx ty) =
     (if tx \<ge> 8 \<or> tx < 0 \<or> ty \<ge> 8 \<or> ty < 0 then Returns False
      else Returns ((\<bar>tx - fx\<bar> = 1 \<and> \<bar>ty - fy\<bar> = 2) \<or> (\<bar>tx - fx\<bar> = 2 \<and> \<bar>ty - fy\<bar> = 1)))"

subsection \<open>Pawn\<close>

fun Pawn_IsValidMove :: "Player \<Rightarrow> Board \<Rightarrow> BoardCoord \<Rightarrow> BoardCoord \<Rightarrow> bool result" where
  "Pawn_IsValidMove m_player board (BoardCoord fx fy) (BoardCoord tx ty) =
     (if tx \<ge> 8 \<or> tx < 0 \<or> ty \<ge> 8 \<or> ty < 0 then Returns False
      else
        (let valid_y = (if m_player = White then fy - ty = 1 else ty - fy = 1);
             valid_x = (\<bar>tx - fx\<bar> \<le> 1)
         in if valid_y \<and> valid_x then
              (case board_index board (ty * 8 + tx) of
                 Inl e \<Rightarrow> Throws e
               | Inr piece \<Rightarrow>
                   if \<bar>tx - fx\<bar> = 1 then Returns (piece \<noteq> None)
                   else Returns (piece = None))
            else Returns False))"

text \<open>The virtual call \<open>piece->IsValidMove(board, from, to)\<close>.\<close>

fun IsValidMove :: "Piece \<Rightarrow> Board \<Rightarrow> BoardCoord \<Rightarrow> BoardCoord \<Rightarrow> bool result" where
  "IsValidMove (Piece King p) board from to = King_IsValidMove board from to"
| "IsValidMove (Piece Queen p) board from to = Queen_IsValidMove board from to"
| "IsValidMove (Piece Rook p) board from to = Rook_IsValidMove board from to"
| "IsValidMove (Piece Bishop p) board from to = Bishop_IsValidMove board from to"
| "IsValidMove (Piece Knight p) board from to = Knight_IsValidMove board from to"
| "IsValidMove (Piece Pawn p) board from to = Pawn_IsValidMove p board from to"

section \<open>Board model\<close>

record BoardModel =
  m_board :: Board
  m_move_started :: bool
  m_space_selected :: BoardCoord
  m_game_over :: bool
  m_cur_player :: Player

text \<open>
  The constructor: 64 null cells, then the 32 assignments in the order of the source;
  the other members take their default member initialisers.
\<close>

definition initial_board :: Board where
  "initial_board =
     (replicate 64 None)
       [0 * 8 + 0 := Some (Piece Rook Black),
        0 * 8 + 1 := Some (Piece Knight Black),
        0 * 8 + 2 := Some (Piece Bishop Black),
        0 * 8 + 3 := Some (Piece Queen Black),
        0 * 8 + 4 := Some (Piece King Black),
        0 * 8 + 5 := Some (Piece Bishop Black),
        0 * 8 + 6 := Some (Piece Knight Black),
        0 * 8 + 7 := Some (Piece Rook Black),
        1 * 8 + 0 := Some (Piece Pawn Black),
        1 * 8 + 1 := Some (Piece Pawn Black),
        1 * 8 + 2 := Some (Piece Pawn Black),
        1 * 8 + 3 := Some (Piece Pawn Black),
        1 * 8 + 4 := Some (Piece Pawn Black),
        1 * 8 + 5 := Some (Piece Pawn Black),
        1 * 8 + 6 := Some (Piece Pawn Black),
        1 * 8 + 7 := Some (Piece Pawn Black),
        7 * 8 + 0 := Some (Piece Rook White),
        7 * 8 + 1 := Some (Piece Knight White),
        7 * 8 + 2 := Some (Piece Bishop White),
        7 * 8 + 3 := Some (Piece Queen White),
        7 * 8 + 4 := Some (Piece King White),
        7 * 8 + 5 := Some (Piece Bishop White),
        7 * 8 + 6 := Some (Piece Knight White),
        7 * 8 + 7 := Some (Piece Rook White),
        6 * 8 + 0 := Some (Piece Pawn White),
        6 * 8 + 1 := Some (Piece Pawn White),
        6 * 8 + 2 := Some (Piece Pawn White),
        6 * 8 + 3 := Some (Piece Pawn White),
        6 * 8 + 4 := Some (Piece Pawn White),
        6 * 8 + 5 := Some (Piece Pawn White),
        6 * 8 + 6 := Some (Piece Pawn White),
        6 * 8 + 7 := Some (Piece Pawn White)]"

definition BoardModel_new :: BoardModel where
  "BoardModel_new =
     \<lparr>m_board = initial_board,
      m_move_started = False,
      m_space_selected = BoardCoord 0 0,
      m_game_over = False,
      m_cur_player = White\<rparr>"

text \<open>
  \<open>GetPieceAt\<close>: the assertion \<open>index < m_board.size()\<close> compares as \<open>size_t\<close>, so a
  negative index fails it too.
\<close>

definition GetPieceAt :: "BoardModel \<Rightarrow> BoardCoord \<Rightarrow> error + Piece option" where
  "GetPieceAt s c =
     (case c of BoardCoord x y \<Rightarrow>
        let index = (y * 8) + x
        in if 0 \<le> index \<and> index < int (length (m_board s)) then Inr (m_board s ! nat index)
           else Inl assertion_failed)"

definition GameOver :: "BoardModel \<Rightarrow> bool" where
  "GameOver s = m_game_over s"

definition GetCurPlayer :: "BoardModel \<Rightarrow> Player" where
  "GetCurPlayer s = m_cur_player s"

definition SpaceSelected :: "BoardModel \<Rightarrow> bool" where
  "SpaceSelected s = m_move_started s"

definition GetSpaceSelected :: "BoardModel \<Rightarrow> BoardCoord" where
  "GetSpaceSelected s = m_space_selected s"

text \<open>
  \<open>MovePiece\<close> returns its boolean together with the model after the call. The two
  writes \<open>m_board[...] = ...\<close> happen only after both \<open>GetPieceAt\<close> assertions have
  passed, so their indices lie inside the vector.
\<close>

definition MovePiece ::
  "BoardModel \<Rightarrow> Player \<Rightarrow> BoardCoord \<Rightarrow> BoardCoord \<Rightarrow> (bool \<times> BoardModel) result" where
  "MovePiece s p from to =
     (case GetPieceAt s from of
        Inl e \<Rightarrow> Throws e
      | Inr attacker_piece \<Rightarrow>
          if attacker_piece = None then Returns (False, s)
          else
            (case GetPieceAt s to of
               Inl e \<Rightarrow> Throws e
             | Inr defender_piece \<Rightarrow>
                 (case IsValidMove (the attacker_piece) (m_board s) from to of
                    None \<Rightarrow> None
                  | Some (Inl e) \<Rightarrow> Throws e
                  | Some (Inr valid_move) \<Rightarrow>
                      if valid_move \<and>
                         (defender_piece = None \<or> GetPlayer (the defender_piece) \<noteq> p)
                      then
                        (let s1 = (if defender_piece \<noteq> None \<and>
                                      PieceType (the defender_piece) = King
                                   then s\<lparr>m_game_over := True\<rparr> else s);
                             s2 = s1\<lparr>m_board :=
                                      (m_board s1)[nat ((coord_y to * 8) + coord_x to) :=
                                                     attacker_piece]\<rparr>;
                             s3 = s2\<lparr>m_board :=
                                      (m_board s2)[nat ((coord_y from * 8) + coord_x from) :=
                                                     None]\<rparr>
                         in Returns (True, s3))
                      else Returns (False, s))))"

definition SelectSpace :: "BoardModel \<Rightarrow> BoardCoord \<Rightarrow> BoardModel result" where
  "SelectSpace s coord =
     (if GameOver s then Returns s
      else if m_move_started s then
        (case MovePiece s (m_cur_player s) (m_space_selected s) coord of
           None \<Rightarrow> None
         | Some (Inl e) \<Rightarrow> Throws e
         | Some (Inr (valid_move, s1)) \<Rightarrow>
             (let s2 = s1\<lparr>m_move_started := False\<rparr>
              in if valid_move
                 then Returns (s2\<lparr>m_cur_player :=
                                   (if m_cur_player s2 = White then Black else White)\<rparr>)
                 else Returns s2))
      else
        (case GetPieceAt s coord of
           Inl e \<Rightarrow> Throws e
         | Inr piece \<Rightarrow>
             if piece = None then Returns s
             else if GetPlayer (the piece) \<noteq> m_cur_player s then Returns s
             else Returns (s\<lparr>m_space_selected := coord, m_move_started := True\<rparr>)))"

text \<open>A session of the controller: each mouse click is one \<open>SelectSpace\<close> call.\<close>

fun clicks :: "BoardModel \<Rightarrow> BoardCoord list \<Rightarrow> BoardModel result" where
  "clicks s [] = Returns s"
| "clicks s (c # cs) =
     (case SelectSpace s c of
        None \<Rightarrow> None
      | Some (Inl e) \<Rightarrow> Throws e
      | Some (Inr s') \<Rightarrow> clicks s' cs)"

section \<open>Vocabulary of the statements\<close>

text \<open>
  A coordinate is on the board when both components lie in \<open>[0,8)\<close>: the negation of
  the test \<open>tx >= 8 || tx < 0 || ty >= 8 || ty < 0\<close> of the source.
\<close>

definition in_bounds :: "BoardCoord \<Rightarrow> bool" where
  "in_bounds c = (0 \<le> coord_x c \<and> coord_x c < 8 \<and> 0 \<le> coord_y c \<and> coord_y c < 8)"

text \<open>The read that iteration \<open>i\<close> of the rook loop performs.\<close>

definition Rook_read :: "Board \<Rightarrow> BoardCoord \<Rightarrow> BoardCoord \<Rightarrow> int \<Rightarrow> error + Piece option" where
  "Rook_read board f t i =
     (if coord_x t \<noteq> coord_x f then board_at board (coord_y t * 8 + i)
      else board_at board (i * 8 + coord_x t))"

text \<open>The model after an accepted move of piece \<open>a\<close> from \<open>f\<close> to \<open>t\<close>, where \<open>d\<close> was the
  content of the destination cell: the writes of the success branch of \<open>MovePiece\<close>.\<close>

definition moved :: "BoardModel \<Rightarrow> BoardCoord \<Rightarrow> BoardCoord \<Rightarrow> Piece \<Rightarrow> Piece option \<Rightarrow> BoardModel" where
  "moved s f t a d =
     s\<lparr>m_game_over := (m_game_over s \<or> (case d of None \<Rightarrow> False | Some k \<Rightarrow> PieceType k = King)),
       m_board := (m_board s)[nat (coord_y t * 8 + coord_x t) := Some a,
                              nat (coord_y f * 8 + coord_x f) := None]\<rparr>"

text \<open>
  A pending selection is sound when the game is not over and the selected cell holds a
  piece of the player to move.
\<close>

definition selection_valid :: "BoardModel \<Rightarrow> bool" where
  "selection_valid s =
     (if m_move_started s
      then \<not> m_game_over s \<and>
           (case GetPieceAt s (m_space_selected s) of
              Inl e \<Rightarrow> False
            | Inr None \<Rightarrow> False
            | Inr (Some a) \<Rightarrow> GetPlayer a = m_cur_player s)
      else True)"

text \<open>The grid has its 64 cells and a pending selection lies on the board.\<close>

definition well_formed :: "BoardModel \<Rightarrow> bool" where
  "well_formed s =
     (length (m_board s) = 64 \<and> (if m_move_started s then in_bounds (m_space_selected s) else True))"

section \<open>The rook loop\<close>

lemma Rook_loop_unfold:
  "Rook_loop board f t s e i =
     (if i = e then Returns True
      else case Rook_read board f t i of
             Inl err \<Rightarrow> Throws err
           | Inr piece \<Rightarrow> if piece \<noteq> None then Returns False
                          else Rook_loop board f t s e (i + s))"
  by (subst Rook_loop.simps) (simp add: Rook_read_def)

lemma Rook_loop_True_iff:
  "s \<noteq> 0 \<Longrightarrow>
   Rook_loop board f t s e (e - s * int n) = Returns True \<longleftrightarrow>
     (\<forall>j. 1 \<le> j \<and> j \<le> n \<longrightarrow> Rook_read board f t (e - s * int j) = Inr None)"
proof (induction n)
  case 0
  show ?case by (subst Rook_loop_unfold) simp
next
  case (Suc n)
  have step: "e - s * int (Suc n) + s = e - s * int n" by (simp add: algebra_simps)
  have ne: "e - s * int (Suc n) \<noteq> e" using Suc.prems by simp
  have split: "(\<forall>j. 1 \<le> j \<and> j \<le> Suc n \<longrightarrow> Rook_read board f t (e - s * int j) = Inr None) \<longleftrightarrow>
      Rook_read board f t (e - s * int (Suc n)) = Inr None \<and>
      (\<forall>j. 1 \<le> j \<and> j \<le> n \<longrightarrow> Rook_read board f t (e - s * int j) = Inr None)"
    by (metis le_Suc_eq le_add1 plus_1_eq_Suc)
  show ?case
    apply (subst Rook_loop_unfold)
    apply (simp only: step split)
    using ne Suc.IH [OF Suc.prems]
    by (auto split: sum.splits)
qed

lemma Rook_loop_Returns:
  "s \<noteq> 0 \<Longrightarrow>
   (\<forall>j. 1 \<le> j \<and> j \<le> n \<longrightarrow> (\<exists>p. Rook_read board f t (e - s * int j) = Inr p)) \<Longrightarrow>
   \<exists>b. Rook_loop board f t s e (e - s * int n) = Returns b"
proof (induction n)
  case 0
  show ?case by (subst Rook_loop_unfold) auto
next
  case (Suc n)
  have step: "e - s * int (Suc n) + s = e - s * int n" by (simp add: algebra_simps)
  have ne: "e - s * int (Suc n) \<noteq> e" using Suc.prems by simp
  obtain p where p: "Rook_read board f t (e - s * int (Suc n)) = Inr p"
    using Suc.prems(2) by (metis le_add1 le_refl plus_1_eq_Suc)
  have "\<exists>b. Rook_loop board f t s e (e - s * int n) = Returns b"
    using Suc.IH Suc.prems by simp
  then show ?case
    apply (subst Rook_loop_unfold)
    apply (simp only: step)
    using ne p by auto
qed

lemma range_up: "(\<forall>j. 1 \<le> j \<and> j \<le> nat (e - a - 1) \<longrightarrow> P (e - 1 * int j)) \<longleftrightarrow> (\<forall>i::int. a < i \<and> i < e \<longrightarrow> P i)"
proof
  assume L: "\<forall>j. 1 \<le> j \<and> j \<le> nat (e - a - 1) \<longrightarrow> P (e - 1 * int j)"
  show "\<forall>i::int. a < i \<and> i < e \<longrightarrow> P i"
  proof (intro allI impI)
    fix i assume "a < i \<and> i < e"
    then have "1 \<le> nat (e - i) \<and> nat (e - i) \<le> nat (e - a - 1)" by auto
    with L have "P (e - 1 * int (nat (e - i)))" by blast
    with \<open>a < i \<and> i < e\<close> show "P i" by simp
  qed
next
  assume R: "\<forall>i::int. a < i \<and> i < e \<longrightarrow> P i"
  show "\<forall>j. 1 \<le> j \<and> j \<le> nat (e - a - 1) \<longrightarrow> P (e - 1 * int j)"
  proof (intro allI impI)
    fix j :: nat assume "1 \<le> j \<and> j \<le> nat (e - a - 1)"
    then have "a < e - 1 * int j \<and> e - 1 * int j < e" by auto
    with R show "P (e - 1 * int j)" by blast
  qed
qed

lemma range_down: "(\<forall>j. 1 \<le> j \<and> j \<le> nat (a - e - 1) \<longrightarrow> P (e - (-1) * int j)) \<longleftrightarrow> (\<forall>i::int. e < i \<and> i < a \<longrightarrow> P i)"
proof
  assume L: "\<forall>j. 1 \<le> j \<and> j \<le> nat (a - e - 1) \<longrightarrow> P (e - (-1) * int j)"
  show "\<forall>i::int. e < i \<and> i < a \<longrightarrow> P i"
  proof (intro allI impI)
    fix i assume "e < i \<and> i < a"
    then have "1 \<le> nat (i - e) \<and> nat (i - e) \<le> nat (a - e - 1)" by auto
    with L have "P (e - (-1) * int (nat (i - e)))" by blast
    with \<open>e < i \<and> i < a\<close> show "P i" by simp
  qed
next
  assume R: "\<forall>i::int. e < i \<and> i < a \<longrightarrow> P i"
  show "\<forall>j. 1 \<le> j \<and> j \<le> nat (a - e - 1) \<longrightarrow> P (e - (-1) * int j)"
  proof (intro allI impI)
    fix j :: nat assume "1 \<le> j \<and> j \<le> nat (a - e - 1)"
    then have "e < e - (-1) * int j \<and> e - (-1) * int j < a" by auto
    with R show "P (e - (-1) * int j)" by blast
  qed
qed

text \<open>The loop as \<open>Rook::IsValidMove\<close> enters it.\<close>

lemma Rook_walk_True_iff:
  assumes "a \<noteq> e"
  shows "Rook_loop board f t (if a < e then 1 else -1) e (a + (if a < e then 1 else -1)) = Returns True
     \<longleftrightarrow> (\<forall>i. min a e < i \<and> i < max a e \<longrightarrow> Rook_read board f t i = Inr None)"
proof (cases "a < e")
  case True
  have "a + 1 = e - 1 * int (nat (e - a - 1))" using True by simp
  then show ?thesis
    using True Rook_loop_True_iff [of 1 board f t e "nat (e - a - 1)"]
      range_up [of e a "\<lambda>i. Rook_read board f t i = Inr None"]
    by (simp add: min_def max_def)
next
  case False
  with assms have lt: "e < a" by simp
  have "a + (-1) = e - (-1) * int (nat (a - e - 1))" using lt by simp
  then show ?thesis
    using lt Rook_loop_True_iff [of "-1" board f t e "nat (a - e - 1)"]
      range_down [of a e "\<lambda>i. Rook_read board f t i = Inr None"]
    by (simp add: min_def max_def)
qed

lemma Rook_walk_Returns:
  assumes "a \<noteq> e"
    and "\<forall>i. min a e < i \<and> i < max a e \<longrightarrow> (\<exists>p. Rook_read board f t i = Inr p)"
  shows "\<exists>b. Rook_loop board f t (if a < e then 1 else -1) e (a + (if a < e then 1 else -1)) = Returns b"
proof (cases "a < e")
  case True
  have "a + 1 = e - 1 * int (nat (e - a - 1))" using True by simp
  then show ?thesis
    using True assms(2) Rook_loop_Returns [of 1 "nat (e - a - 1)" board f t e]
      range_up [of e a "\<lambda>i. \<exists>p. Rook_read board f t i = Inr p"]
    by (simp add: min_def max_def)
next
  case False
  with assms have lt: "e < a" by simp
  have "a + (-1) = e - (-1) * int (nat (a - e - 1))" using lt by simp
  then show ?thesis
    using lt assms(2) Rook_loop_Returns [of "-1" "nat (a - e - 1)" board f t e]
      range_down [of a e "\<lambda>i. \<exists>p. Rook_read board f t i = Inr p"]
    by (simp add: min_def max_def)
qed

lemma Rook_IsValidMove_early:
  "f = t \<or> \<not> in_bounds t \<or> (coord_x t \<noteq> coord_x f \<and> coord_y t \<noteq> coord_y f) \<Longrightarrow>
   Rook_IsValidMove board f t = Returns False"
  by (cases f; cases t) (auto simp: Rook_IsValidMove_def in_bounds_def)

lemma Rook_IsValidMove_walk:
  assumes "f \<noteq> t" "in_bounds t" "coord_x t = coord_x f \<or> coord_y t = coord_y f"
  shows "Rook_IsValidMove board f t =
     (if coord_x t \<noteq> coord_x f
      then Rook_loop board f t (if coord_x f < coord_x t then 1 else -1) (coord_x t)
             (coord_x f + (if coord_x f < coord_x t then 1 else -1))
      else Rook_loop board f t (if coord_y f < coord_y t then 1 else -1) (coord_y t)
             (coord_y f + (if coord_y f < coord_y t then 1 else -1)))"
  using assms by (cases f; cases t) (auto simp: Rook_IsValidMove_def in_bounds_def)

lemma Rook_IsValidMove_True_iff:
  "Rook_IsValidMove board f t = Returns True \<longleftrightarrow>
     f \<noteq> t \<and> in_bounds t \<and> (coord_x t = coord_x f \<or> coord_y t = coord_y f) \<and>
     (\<forall>i. (coord_x t \<noteq> coord_x f \<and> min (coord_x f) (coord_x t) < i \<and> i < max (coord_x f) (coord_x t)
            \<longrightarrow> board_at board (coord_y t * 8 + i) = Inr None) \<and>
          (coord_x t = coord_x f \<and> min (coord_y f) (coord_y t) < i \<and> i < max (coord_y f) (coord_y t)
            \<longrightarrow> board_at board (i * 8 + coord_x t) = Inr None))"
proof (cases "f = t \<or> \<not> in_bounds t \<or> (coord_x t \<noteq> coord_x f \<and> coord_y t \<noteq> coord_y f)")
  case True
  then show ?thesis using Rook_IsValidMove_early [of f t board] by auto
next
  case False
  then have h: "f \<noteq> t" "in_bounds t" "coord_x t = coord_x f \<or> coord_y t = coord_y f" by auto
  show ?thesis
  proof (cases "coord_x t \<noteq> coord_x f")
    case True
    then show ?thesis
      using h Rook_IsValidMove_walk [OF h, of board]
        Rook_walk_True_iff [of "coord_x f" "coord_x t" board f t]
      by (simp add: Rook_read_def)
  next
    case False
    then have "coord_y f \<noteq> coord_y t" using h(1) by (cases f; cases t) auto
    then show ?thesis
      using False h Rook_IsValidMove_walk [OF h, of board]
        Rook_walk_True_iff [of "coord_y f" "coord_y t" board f t]
      by (simp add: Rook_read_def)
  qed
qed

lemma board_at_in_range:
  "length board = 64 \<Longrightarrow> 0 \<le> i \<Longrightarrow> i < 64 \<Longrightarrow> board_at board i = Inr (board ! nat i)"
  by (simp add: board_at_def)

lemma Rook_IsValidMove_Returns:
  assumes len: "length board = 64" and fb: "in_bounds f"
  shows "\<exists>b. Rook_IsValidMove board f t = Returns b"
proof (cases "f = t \<or> \<not> in_bounds t \<or> (coord_x t \<noteq> coord_x f \<and> coord_y t \<noteq> coord_y f)")
  case True
  then show ?thesis using Rook_IsValidMove_early [of f t board] by auto
next
  case False
  then have h: "f \<noteq> t" "in_bounds t" "coord_x t = coord_x f \<or> coord_y t = coord_y f" by auto
  show ?thesis
  proof (cases "coord_x t \<noteq> coord_x f")
    case True
    have "\<forall>i. min (coord_x f) (coord_x t) < i \<and> i < max (coord_x f) (coord_x t) \<longrightarrow>
            (\<exists>p. Rook_read board f t i = Inr p)"
      using True h(2) fb len by (auto simp: Rook_read_def in_bounds_def board_at_def)
    then show ?thesis
      using True Rook_IsValidMove_walk [OF h, of board]
        Rook_walk_Returns [of "coord_x f" "coord_x t" board f t]
      by simp
  next
    case False
    then have ne: "coord_y f \<noteq> coord_y t" using h(1) by (cases f; cases t) auto
    have "\<forall>i. min (coord_y f) (coord_y t) < i \<and> i < max (coord_y f) (coord_y t) \<longrightarrow>
            (\<exists>p. Rook_read board f t i = Inr p)"
      using False h(2) fb len by (auto simp: Rook_read_def in_bounds_def board_at_def)
    then show ?thesis
      using False ne Rook_IsValidMove_walk [OF h, of board]
        Rook_walk_Returns [of "coord_y f" "coord_y t" board f t]
      by simp
  qed
qed

lemma Rook_IsValidMove_in_bounds:
  assumes len: "length board = 64" and fb: "in_bounds f"
  shows "Rook_IsValidMove board f t = Returns
     (f \<noteq> t \<and> in_bounds t \<and> (coord_x t = coord_x f \<or> coord_y t = coord_y f) \<and>
      (\<forall>i. (coord_x t \<noteq> coord_x f \<and> min (coord_x f) (coord_x t) < i \<and> i < max (coord_x f) (coord_x t)
             \<longrightarrow> board ! nat (coord_y t * 8 + i) = None) \<and>
           (coord_x t = coord_x f \<and> min (coord_y f) (coord_y t) < i \<and> i < max (coord_y f) (coord_y t)
             \<longrightarrow> board ! nat (i * 8 + coord_x t) = None)))"
proof -
  obtain b where b: "Rook_IsValidMove board f t = Returns b"
    using Rook_IsValidMove_Returns [OF len fb] by blast
  have "b \<longleftrightarrow> Rook_IsValidMove board f t = Returns True" using b by simp
  also have "\<dots> \<longleftrightarrow> f \<noteq> t \<and> in_bounds t \<and> (coord_x t = coord_x f \<or> coord_y t = coord_y f) \<and>
      (\<forall>i. (coord_x t \<noteq> coord_x f \<and> min (coord_x f) (coord_x t) < i \<and> i < max (coord_x f) (coord_x t)
             \<longrightarrow> board ! nat (coord_y t * 8 + i) = None) \<and>
           (coord_x t = coord_x f \<and> min (coord_y f) (coord_y t) < i \<and> i < max (coord_y f) (coord_y t)
             \<longrightarrow> board ! nat (i * 8 + coord_x t) = None))"
    unfolding Rook_IsValidMove_True_iff
    using len fb by (auto simp: in_bounds_def board_at_def)
  finally show ?thesis using b by simp
qed

lemma Rook_IsValidMove_endpoints:
  assumes len: "length board = 64" and fb: "in_bounds f" and tb: "in_bounds t"
  shows "Rook_IsValidMove (board[nat (coord_y t * 8 + coord_x t) := v]) f t = Rook_IsValidMove board f t"
    and "Rook_IsValidMove (board[nat (coord_y f * 8 + coord_x f) := v]) f t = Rook_IsValidMove board f t"
proof -
  have len': "\<And>k. length (board[k := v]) = 64" using len by simp
  have neq: "\<And>i j. 0 \<le> i \<Longrightarrow> 0 \<le> j \<Longrightarrow> i \<noteq> j \<Longrightarrow> nat i \<noteq> nat j" by simp
  show "Rook_IsValidMove (board[nat (coord_y t * 8 + coord_x t) := v]) f t = Rook_IsValidMove board f t"
    unfolding Rook_IsValidMove_in_bounds [OF len' fb] Rook_IsValidMove_in_bounds [OF len fb]
    using fb tb by (auto simp: in_bounds_def nth_list_update)
  show "Rook_IsValidMove (board[nat (coord_y f * 8 + coord_x f) := v]) f t = Rook_IsValidMove board f t"
    unfolding Rook_IsValidMove_in_bounds [OF len' fb] Rook_IsValidMove_in_bounds [OF len fb]
    using fb tb by (auto simp: in_bounds_def nth_list_update)
qed

section \<open>The bishop loop\<close>

lemma Bishop_loop_Returns:
  "xs \<noteq> 0 \<Longrightarrow> tx = ix + xs * int n \<Longrightarrow>
   (\<forall>j<n. \<exists>p. board_at board ((iy + ys * int j) * 8 + (ix + xs * int j)) = Inr p) \<Longrightarrow>
   \<exists>b. Bishop_loop board tx xs ys ix iy = Returns b"
proof (induction n arbitrary: ix iy)
  case 0
  then show ?case by (subst Bishop_loop.simps) auto
next
  case (Suc n)
  have ne: "ix \<noteq> tx" using Suc.prems(1,2) by simp
  obtain p where p: "board_at board (iy * 8 + ix) = Inr p"
    using Suc.prems(3) [rule_format, of 0] by auto
  have tx': "tx = (ix + xs) + xs * int n" using Suc.prems(2) by (simp add: algebra_simps)
  have "\<forall>j<n. \<exists>p. board_at board ((iy + ys + ys * int j) * 8 + (ix + xs + xs * int j)) = Inr p"
  proof (intro allI impI)
    fix j assume "j < n"
    then have "Suc j < Suc n" by simp
    from Suc.prems(3) [rule_format, OF this]
    show "\<exists>p. board_at board ((iy + ys + ys * int j) * 8 + (ix + xs + xs * int j)) = Inr p"
      by (simp add: algebra_simps)
  qed
  then have "\<exists>b. Bishop_loop board tx xs ys (ix + xs) (iy + ys) = Returns b"
    using Suc.IH [OF Suc.prems(1) tx'] by blast
  then show ?case
    apply (subst Bishop_loop.simps)
    using ne p by auto
qed

lemma Bishop_loop_True_iff:
  "xs \<noteq> 0 \<Longrightarrow> tx = ix + xs * int n \<Longrightarrow>
   Bishop_loop board tx xs ys ix iy = Returns True \<longleftrightarrow>
   (\<forall>j<n. board_at board ((iy + ys * int j) * 8 + (ix + xs * int j)) = Inr None)"
proof (induction n arbitrary: ix iy)
  case 0
  then show ?case by (subst Bishop_loop.simps) auto
next
  case (Suc n)
  have ne: "ix \<noteq> tx" using Suc.prems(1,2) by simp
  have tx': "tx = (ix + xs) + xs * int n" using Suc.prems(2) by (simp add: algebra_simps)
  have IH: "Bishop_loop board tx xs ys (ix + xs) (iy + ys) = Returns True \<longleftrightarrow>
     (\<forall>j<n. board_at board ((iy + ys * int (Suc j)) * 8 + (ix + xs * int (Suc j))) = Inr None)"
    using Suc.IH [OF Suc.prems(1) tx', of "iy + ys"] by (simp add: algebra_simps)
  show ?case
    apply (subst Bishop_loop.simps)
    apply (subst All_less_Suc2)
    using ne IH by (auto split: sum.splits)
qed

section \<open>The initial position\<close>

lemma length_initial_board: "length initial_board = 64"
  by (simp add: initial_board_def)

lemma initial_board_nth_48: "initial_board ! 48 = Some (Piece Pawn White)"
  by (simp add: initial_board_def)

lemma initial_board_nth_41: "initial_board ! 41 = None"
  by (simp add: initial_board_def)

section \<open>Bishop and queen\<close>

lemma Bishop_IsValidMove_early:
  "f = t \<or> \<not> in_bounds t \<or> coord_x t = coord_x f \<or> coord_y t = coord_y f \<or>
   \<bar>coord_x f - coord_x t\<bar> \<noteq> \<bar>coord_y f - coord_y t\<bar> \<Longrightarrow>
   Bishop_IsValidMove board f t = Returns False"
  by (cases f; cases t) (auto simp: Bishop_IsValidMove_def in_bounds_def)

lemma Bishop_IsValidMove_walk:
  assumes "f \<noteq> t" "in_bounds t" "\<bar>coord_x f - coord_x t\<bar> = \<bar>coord_y f - coord_y t\<bar>"
  shows "Bishop_IsValidMove board f t =
     Bishop_loop board (coord_x t) (if coord_x f < coord_x t then 1 else -1)
       (if coord_y f < coord_y t then 1 else -1)
       (coord_x f + (if coord_x f < coord_x t then 1 else -1))
       (coord_y f + (if coord_y f < coord_y t then 1 else -1))"
proof -
  have "coord_x t \<noteq> coord_x f \<and> coord_y t \<noteq> coord_y f"
    using assms(1,3) by (cases f; cases t) auto
  then show ?thesis
    using assms by (cases f; cases t) (auto simp: Bishop_IsValidMove_def in_bounds_def Let_def)
qed

lemma Queen_IsValidMove_diagonal:
  assumes "f \<noteq> t" "in_bounds t" "\<bar>coord_x f - coord_x t\<bar> = \<bar>coord_y f - coord_y t\<bar>"
  shows "Queen_IsValidMove board f t = Bishop_IsValidMove board f t"
  unfolding Bishop_IsValidMove_walk [OF assms]
  using assms by (cases f; cases t) (auto simp: Queen_IsValidMove_def in_bounds_def Let_def)

lemma Queen_IsValidMove_straight:
  assumes "f \<noteq> t" "in_bounds t" "coord_x f = coord_x t \<or> coord_y f = coord_y t"
  shows "Queen_IsValidMove board f t = Rook_IsValidMove board f t"
proof -
  have "\<bar>coord_x f - coord_x t\<bar> \<noteq> \<bar>coord_y f - coord_y t\<bar>"
    using assms(1,3) by (cases f; cases t) auto
  then show ?thesis
    using assms
    by (cases f; cases t) (auto simp: Queen_IsValidMove_def Rook_IsValidMove_def in_bounds_def)
qed

lemma Queen_IsValidMove_early:
  "f = t \<or> \<not> in_bounds t \<or>
   (\<bar>coord_x f - coord_x t\<bar> \<noteq> \<bar>coord_y f - coord_y t\<bar> \<and> coord_x f \<noteq> coord_x t \<and> coord_y f \<noteq> coord_y t) \<Longrightarrow>
   Queen_IsValidMove board f t = Returns False"
proof (cases "f = t")
  case True
  then show ?thesis by (simp add: Queen_IsValidMove_def)
next
  case False
  obtain fx fy tx ty where ft: "f = BoardCoord fx fy" "t = BoardCoord tx ty"
    by (cases f; cases t) blast
  assume "f = t \<or> \<not> in_bounds t \<or>
   (\<bar>coord_x f - coord_x t\<bar> \<noteq> \<bar>coord_y f - coord_y t\<bar> \<and> coord_x f \<noteq> coord_x t \<and> coord_y f \<noteq> coord_y t)"
  with False have "\<not> in_bounds t \<or>
   (\<bar>coord_x f - coord_x t\<bar> \<noteq> \<bar>coord_y f - coord_y t\<bar> \<and> coord_x f \<noteq> coord_x t \<and> coord_y f \<noteq> coord_y t)"
    by simp
  then show ?thesis
  proof
    assume "\<not> in_bounds t"
    then have "tx \<ge> 8 \<or> tx < 0 \<or> ty \<ge> 8 \<or> ty < 0"
      by (auto simp: in_bounds_def ft)
    then show ?thesis
      using False by (simp add: Queen_IsValidMove_def ft)
  next
    assume "\<bar>coord_x f - coord_x t\<bar> \<noteq> \<bar>coord_y f - coord_y t\<bar> \<and> coord_x f \<noteq> coord_x t \<and> coord_y f \<noteq> coord_y t"
    then have "\<bar>fx - tx\<bar> \<noteq> \<bar>fy - ty\<bar>" "fx \<noteq> tx" "fy \<noteq> ty" by (simp_all add: ft)
    then show ?thesis
      using False by (simp add: Queen_IsValidMove_def ft)
  qed
qed

lemma Bishop_IsValidMove_Returns:
  assumes len: "length board = 64" and fb: "in_bounds f"
  shows "\<exists>b. Bishop_IsValidMove board f t = Returns b"
proof (cases "f = t \<or> \<not> in_bounds t \<or> coord_x t = coord_x f \<or> coord_y t = coord_y f \<or>
   \<bar>coord_x f - coord_x t\<bar> \<noteq> \<bar>coord_y f - coord_y t\<bar>")
  case True
  then show ?thesis using Bishop_IsValidMove_early [of f t board] by auto
next
  case False
  then have h: "f \<noteq> t" "in_bounds t" "\<bar>coord_x f - coord_x t\<bar> = \<bar>coord_y f - coord_y t\<bar>"
    and nz: "coord_x t \<noteq> coord_x f" by auto
  define xs :: int where "xs = (if coord_x f < coord_x t then 1 else -1)"
  define ys :: int where "ys = (if coord_y f < coord_y t then 1 else -1)"
  define n where "n = nat (\<bar>coord_x f - coord_x t\<bar> - 1)"
  have xs0: "xs \<noteq> 0" by (simp add: xs_def)
  have tx: "coord_x t = (coord_x f + xs) + xs * int n"
    using nz by (auto simp: xs_def n_def)
  have cells: "\<forall>j<n. \<exists>p. board_at board ((coord_y f + ys + ys * int j) * 8 + (coord_x f + xs + xs * int j)) = Inr p"
  proof (intro allI impI)
    fix j assume j: "j < n"
    have "0 \<le> coord_x f + xs + xs * int j \<and> coord_x f + xs + xs * int j < 8"
      using j fb h(2) by (auto simp: xs_def n_def in_bounds_def)
    moreover have "0 \<le> coord_y f + ys + ys * int j \<and> coord_y f + ys + ys * int j < 8"
      using j fb h(2,3) by (auto simp: ys_def n_def in_bounds_def)
    ultimately show "\<exists>p. board_at board ((coord_y f + ys + ys * int j) * 8 + (coord_x f + xs + xs * int j)) = Inr p"
      using len by (simp add: board_at_def)
  qed
  show ?thesis
    unfolding Bishop_IsValidMove_walk [OF h]
    using Bishop_loop_Returns [OF xs0 tx cells] by (simp add: xs_def ys_def)
qed

section \<open>MovePiece\<close>

lemma GetPieceAt_Inr:
  "GetPieceAt s c = Inr x \<longleftrightarrow>
     0 \<le> coord_y c * 8 + coord_x c \<and> coord_y c * 8 + coord_x c < int (length (m_board s)) \<and>
     x = m_board s ! nat (coord_y c * 8 + coord_x c)"
  by (cases c) (auto simp: GetPieceAt_def Let_def)

lemma GetPieceAt_in_bounds:
  "length (m_board s) = 64 \<Longrightarrow> in_bounds c \<Longrightarrow>
   GetPieceAt s c = Inr (m_board s ! nat (coord_y c * 8 + coord_x c))"
  by (cases c) (auto simp: GetPieceAt_def Let_def in_bounds_def)

lemma MovePiece_accept:
  assumes "GetPieceAt s f = Inr (Some a)" "GetPieceAt s t = Inr d"
    "IsValidMove a (m_board s) f t = Returns True"
    "d = None \<or> (\<exists>k. d = Some k \<and> GetPlayer k \<noteq> p)"
  shows "MovePiece s p f t = Returns (True, moved s f t a d)"
  using assms by (auto simp: MovePiece_def moved_def Let_def split: option.splits)

lemma MovePiece_reject:
  assumes "GetPieceAt s f = Inr (Some a)" "GetPieceAt s t = Inr d"
    "IsValidMove a (m_board s) f t = Returns v"
    "\<not> (v \<and> (d = None \<or> (\<exists>k. d = Some k \<and> GetPlayer k \<noteq> p)))"
  shows "MovePiece s p f t = Returns (False, s)"
  using assms by (auto simp: MovePiece_def Let_def)

lemma MovePiece_empty_origin:
  "GetPieceAt s f = Inr None \<Longrightarrow> MovePiece s p f t = Returns (False, s)"
  by (simp add: MovePiece_def)

lemma MovePiece_Returns_cases:
  assumes "MovePiece s p f t = Returns (ok, s')"
  shows "(\<not> ok \<and> s' = s) \<or>
     (ok \<and> (\<exists>a d. GetPieceAt s f = Inr (Some a) \<and> GetPieceAt s t = Inr d \<and>
        IsValidMove a (m_board s) f t = Returns True \<and>
        (d = None \<or> (\<exists>k. d = Some k \<and> GetPlayer k \<noteq> p)) \<and>
        s' = moved s f t a d))"
proof (cases "GetPieceAt s f")
  case (Inl e)
  then show ?thesis using assms by (simp add: MovePiece_def)
next
  case (Inr ap)
  show ?thesis
  proof (cases ap)
    case None
    then show ?thesis using assms Inr by (simp add: MovePiece_def)
  next
    case (Some a)
    note a = Inr [unfolded Some]
    show ?thesis
    proof (cases "GetPieceAt s t")
      case (Inl e)
      then show ?thesis using assms a by (simp add: MovePiece_def)
    next
      case (Inr d)
      note d = this
      show ?thesis
      proof (cases "IsValidMove a (m_board s) f t")
        case None
        then show ?thesis using assms a d by (simp add: MovePiece_def)
      next
        case (Some r)
        show ?thesis
        proof (cases r)
          case (Inl e)
          then show ?thesis using assms a d Some by (simp add: MovePiece_def)
        next
          case (Inr v)
          note v = Some [unfolded Inr]
          show ?thesis
          proof (cases "v \<and> (d = None \<or> (\<exists>k. d = Some k \<and> GetPlayer k \<noteq> p))")
            case True
            then have "MovePiece s p f t = Returns (True, moved s f t a d)"
              using MovePiece_accept [OF a d] v by simp
            then show ?thesis using assms a d v True by auto
          next
            case False
            then have "MovePiece s p f t = Returns (False, s)"
              using MovePiece_reject [OF a d v] by simp
            then show ?thesis using assms by auto
          qed
        qed
      qed
    qed
  qed
qed

lemma BoardModel_new_sel [simp]:
  "m_board BoardModel_new = initial_board" "m_move_started BoardModel_new = False"
  "m_game_over BoardModel_new = False" "m_cur_player BoardModel_new = White"
  "m_space_selected BoardModel_new = BoardCoord 0 0"
  by (simp_all add: BoardModel_new_def)

section \<open>Null moves\<close>

lemma IsValidMove_null_Returns: "\<exists>b. IsValidMove a board c c = Returns b"
proof -
  obtain k q where a: "a = Piece k q" by (cases a) blast
  obtain cx cy where c: "c = BoardCoord cx cy" by (cases c) blast
  show ?thesis
    by (cases k)
      (auto simp: a c Queen_IsValidMove_def Rook_IsValidMove_def Bishop_IsValidMove_def Let_def)
qed

lemma MovePiece_null:
  assumes "GetPieceAt s c = Inr (Some a)" "GetPlayer a = p"
  shows "MovePiece s p c c = Returns (False, s)"
proof -
  obtain b where b: "IsValidMove a (m_board s) c c = Returns b"
    using IsValidMove_null_Returns by blast
  show ?thesis
    using MovePiece_reject [OF assms(1) assms(1) b, of p] assms(2) by simp
qed

text \<open>
  \<open>MovePiece\<close> compares only the destination's owner with its player argument, never
  the moving piece's. \<open>SelectSpace\<close> always passes the owner of the selected piece; a
  direct call naming the other player lets a king take itself.
\<close>

lemma MovePiece_null_other_player:
  "\<exists>s'. MovePiece BoardModel_new Black (BoardCoord 4 7) (BoardCoord 4 7) = Returns (True, s') \<and>
     m_game_over s' \<and> m_board s' ! 60 = None"
proof -
  have g: "GetPieceAt BoardModel_new (BoardCoord 4 7) = Inr (Some (Piece King White))"
    by (simp add: GetPieceAt_def initial_board_def)
  have v: "IsValidMove (Piece King White) (m_board BoardModel_new) (BoardCoord 4 7) (BoardCoord 4 7) =
      Returns True"
    by simp
  have "MovePiece BoardModel_new Black (BoardCoord 4 7) (BoardCoord 4 7) =
      Returns (True, moved BoardModel_new (BoardCoord 4 7) (BoardCoord 4 7) (Piece King White)
        (Some (Piece King White)))"
    using MovePiece_accept [OF g g v, of Black] by simp
  then show ?thesis
    by (simp add: moved_def length_initial_board)
qed

section \<open>SelectSpace\<close>

lemma SelectSpace_game_over: "GameOver s \<Longrightarrow> SelectSpace s c = Returns s"
  by (simp add: SelectSpace_def)

lemma clicks_game_over: "GameOver s \<Longrightarrow> clicks s cs = Returns s"
  by (induction cs) (simp_all add: SelectSpace_game_over)

lemma SelectSpace_pending:
  assumes "\<not> GameOver s" "m_move_started s"
  shows "SelectSpace s c =
     (case MovePiece s (m_cur_player s) (m_space_selected s) c of
        None \<Rightarrow> None
      | Some (Inl e) \<Rightarrow> Throws e
      | Some (Inr (ok, s1)) \<Rightarrow>
          Returns (s1\<lparr>m_move_started := False,
                      m_cur_player := (if ok then (if m_cur_player s1 = White then Black else White)
                                       else m_cur_player s1)\<rparr>))"
  using assms
  by (auto simp: SelectSpace_def Let_def split: option.splits sum.splits prod.splits)

lemma MovePiece_keeps:
  assumes "MovePiece s p f t = Returns (ok, s')"
  shows "m_cur_player s' = m_cur_player s" "m_move_started s' = m_move_started s"
    "m_space_selected s' = m_space_selected s" "length (m_board s') = length (m_board s)"
    "m_game_over s \<Longrightarrow> m_game_over s'"
  using MovePiece_Returns_cases [OF assms] by (auto simp: moved_def)

lemma SelectSpace_idle:
  assumes "\<not> GameOver s" "\<not> m_move_started s"
  shows "SelectSpace s c =
     (case GetPieceAt s c of
        Inl e \<Rightarrow> Throws e
      | Inr None \<Rightarrow> Returns s
      | Inr (Some a) \<Rightarrow>
          if GetPlayer a \<noteq> m_cur_player s then Returns s
          else Returns (s\<lparr>m_space_selected := c, m_move_started := True\<rparr>))"
  using assms by (auto simp: SelectSpace_def split: sum.splits option.splits)

lemma selection_valid_new: "selection_valid BoardModel_new"
  by (simp add: selection_valid_def)

lemma well_formed_new: "well_formed BoardModel_new"
  by (simp add: well_formed_def length_initial_board)

lemma SelectSpace_selection_valid:
  assumes "SelectSpace s c = Returns s'" "selection_valid s"
  shows "selection_valid s'"
proof (cases "GameOver s")
  case True
  then show ?thesis using assms by (simp add: SelectSpace_game_over)
next
  case go: False
  show ?thesis
  proof (cases "m_move_started s")
    case True
    then have "\<not> m_move_started s'"
      using assms(1) go
      by (auto simp: SelectSpace_pending split: option.splits sum.splits prod.splits)
    then show ?thesis by (simp add: selection_valid_def)
  next
    case False
    then show ?thesis
      using assms go
      by (auto simp: SelectSpace_idle selection_valid_def GameOver_def GetPieceAt_def Let_def
               split: sum.splits option.splits if_splits BoardCoord.splits)
  qed
qed

lemma clicks_selection_valid:
  "clicks s cs = Returns s' \<Longrightarrow> selection_valid s \<Longrightarrow> selection_valid s'"
proof (induction cs arbitrary: s)
  case Nil
  then show ?case by simp
next
  case (Cons c cs)
  then obtain s1 where s1: "SelectSpace s c = Returns s1" and rest: "clicks s1 cs = Returns s'"
    by (auto split: option.splits sum.splits)
  show ?case
    using Cons.IH [OF rest] SelectSpace_selection_valid [OF s1 Cons.prems(2)] by simp
qed

lemma SelectSpace_reselect:
  assumes "\<not> GameOver s" "m_move_started s"
    "GetPieceAt s (m_space_selected s) = Inr (Some a)" "GetPlayer a = m_cur_player s"
  shows "SelectSpace s (m_space_selected s) = Returns (s\<lparr>m_move_started := False\<rparr>)"
  using MovePiece_null [OF assms(3,4)] assms(1,2)
  by (simp add: SelectSpace_pending)

section \<open>Calls that return\<close>

lemma Queen_IsValidMove_Returns:
  assumes len: "length board = 64" and fb: "in_bounds f"
  shows "\<exists>b. Queen_IsValidMove board f t = Returns b"
proof -
  consider (e) "f = t \<or> \<not> in_bounds t \<or>
      (\<bar>coord_x f - coord_x t\<bar> \<noteq> \<bar>coord_y f - coord_y t\<bar> \<and> coord_x f \<noteq> coord_x t \<and>
       coord_y f \<noteq> coord_y t)"
    | (d) "f \<noteq> t" "in_bounds t" "\<bar>coord_x f - coord_x t\<bar> = \<bar>coord_y f - coord_y t\<bar>"
    | (s) "f \<noteq> t" "in_bounds t" "coord_x f = coord_x t \<or> coord_y f = coord_y t"
    by blast
  then show ?thesis
  proof cases
    case e
    then show ?thesis using Queen_IsValidMove_early [of f t board] by auto
  next
    case d
    then show ?thesis
      using Queen_IsValidMove_diagonal [of f t board] Bishop_IsValidMove_Returns [OF len fb, of t]
      by simp
  next
    case s
    then show ?thesis
      using Queen_IsValidMove_straight [of f t board] Rook_IsValidMove_Returns [OF len fb, of t]
      by simp
  qed
qed

lemma Pawn_IsValidMove_Returns:
  assumes len: "length board = 64"
  shows "\<exists>b. Pawn_IsValidMove p board f t = Returns b"
proof -
  obtain fx fy tx ty where ft: "f = BoardCoord fx fy" "t = BoardCoord tx ty"
    by (cases f; cases t) blast
  show ?thesis
  proof (cases "tx \<ge> 8 \<or> tx < 0 \<or> ty \<ge> 8 \<or> ty < 0")
    case True
    then show ?thesis by (auto simp: ft)
  next
    case False
    then have "board_index board (ty * 8 + tx) = Inr (board ! nat (ty * 8 + tx))"
      using len by (simp add: board_index_def)
    then show ?thesis using False by (auto simp: ft Let_def)
  qed
qed

lemma IsValidMove_Returns:
  assumes len: "length board = 64" and fb: "in_bounds f"
  shows "\<exists>b. IsValidMove a board f t = Returns b"
proof -
  obtain k q where a: "a = Piece k q" by (cases a) blast
  have kg: "\<exists>b. King_IsValidMove board f t = Returns b" by (cases f; cases t) auto
  have kn: "\<exists>b. Knight_IsValidMove board f t = Returns b" by (cases f; cases t) auto
  show ?thesis
    using kg kn Queen_IsValidMove_Returns [OF len fb, of t] Rook_IsValidMove_Returns [OF len fb, of t]
      Bishop_IsValidMove_Returns [OF len fb, of t] Pawn_IsValidMove_Returns [OF len, of q f t]
    by (cases k) (simp_all add: a)
qed

lemma MovePiece_Returns:
  assumes len: "length (m_board s) = 64" and fb: "in_bounds f" and tb: "in_bounds t"
  shows "\<exists>ok s'. MovePiece s p f t = Returns (ok, s')"
proof (cases "m_board s ! nat (coord_y f * 8 + coord_x f)")
  case None
  then show ?thesis
    using GetPieceAt_in_bounds [OF len fb] MovePiece_empty_origin [of s f p t] by auto
next
  case (Some a)
  then have a: "GetPieceAt s f = Inr (Some a)" using GetPieceAt_in_bounds [OF len fb] by simp
  obtain d where d: "GetPieceAt s t = Inr d" using GetPieceAt_in_bounds [OF len tb] by simp
  obtain v where v: "IsValidMove a (m_board s) f t = Returns v"
    using IsValidMove_Returns [OF len fb] by blast
  show ?thesis
  proof (cases "v \<and> (d = None \<or> (\<exists>k. d = Some k \<and> GetPlayer k \<noteq> p))")
    case True
    then show ?thesis using MovePiece_accept [OF a d, of p] v by auto
  next
    case False
    then show ?thesis using MovePiece_reject [OF a d v, of p] by auto
  qed
qed

lemma SelectSpace_Returns:
  assumes wf: "well_formed s" and cb: "in_bounds c"
  shows "\<exists>s'. SelectSpace s c = Returns s' \<and> well_formed s'"
proof (cases "GameOver s")
  case True
  then show ?thesis using wf by (simp add: SelectSpace_game_over)
next
  case go: False
  have len: "length (m_board s) = 64" using wf by (simp add: well_formed_def)
  show ?thesis
  proof (cases "m_move_started s")
    case True
    then have sb: "in_bounds (m_space_selected s)" using wf by (simp add: well_formed_def)
    obtain ok s1 where m: "MovePiece s (m_cur_player s) (m_space_selected s) c = Returns (ok, s1)"
      using MovePiece_Returns [OF len sb cb] by blast
    have "length (m_board s1) = 64" using MovePiece_keeps(4) [OF m] len by simp
    then show ?thesis
      using go True m by (simp add: SelectSpace_pending well_formed_def)
  next
    case False
    then show ?thesis
      using go wf cb GetPieceAt_in_bounds [OF len cb]
      by (auto simp: SelectSpace_idle well_formed_def split: option.splits)
  qed
qed

lemma clicks_Returns:
  "well_formed s \<Longrightarrow> \<forall>c\<in>set cs. in_bounds c \<Longrightarrow> \<exists>s'. clicks s cs = Returns s' \<and> well_formed s'"
proof (induction cs arbitrary: s)
  case Nil
  then show ?case by simp
next
  case (Cons c cs)
  then obtain s1 where s1: "SelectSpace s c = Returns s1" "well_formed s1"
    using SelectSpace_Returns [of s c] by auto
  then show ?case using Cons.IH [of s1] Cons.prems(2) by simp
qed

section \<open>Every call terminates\<close>

text \<open>
  Both loops step towards their bound, so no legality check, and hence no call of the
  board model, runs forever: each either returns or is stopped by an error.
\<close>

lemma Rook_loop_Some:
  "s \<noteq> 0 \<Longrightarrow> \<exists>r. Rook_loop board f t s e (e - s * int n) = Some r"
proof (induction n)
  case 0
  show ?case by (subst Rook_loop_unfold) auto
next
  case (Suc n)
  have step: "e - s * int (Suc n) + s = e - s * int n" by (simp add: algebra_simps)
  obtain r where r: "Rook_loop board f t s e (e - s * int n) = Some r"
    using Suc.IH [OF Suc.prems] by blast
  show ?case
    apply (subst Rook_loop_unfold)
    apply (simp only: step r)
    by (auto split: sum.splits)
qed

lemma Rook_walk_Some:
  assumes "a \<noteq> e"
  shows "\<exists>r. Rook_loop board f t (if a < e then 1 else -1) e (a + (if a < e then 1 else -1)) = Some r"
proof (cases "a < e")
  case True
  have "a + 1 = e - 1 * int (nat (e - a - 1))" using True by simp
  then show ?thesis
    using True Rook_loop_Some [of 1 board f t e "nat (e - a - 1)"] by simp
next
  case False
  with assms have lt: "e < a" by simp
  have "a + (-1) = e - (-1) * int (nat (a - e - 1))" using lt by simp
  then show ?thesis
    using lt Rook_loop_Some [of "-1" board f t e "nat (a - e - 1)"] by simp
qed

lemma Rook_IsValidMove_Some: "\<exists>r. Rook_IsValidMove board f t = Some r"
proof (cases "f = t \<or> \<not> in_bounds t \<or> (coord_x t \<noteq> coord_x f \<and> coord_y t \<noteq> coord_y f)")
  case True
  then show ?thesis using Rook_IsValidMove_early [of f t board] by auto
next
  case False
  then have h: "f \<noteq> t" "in_bounds t" "coord_x t = coord_x f \<or> coord_y t = coord_y f" by auto
  have ne: "coord_x t = coord_x f \<Longrightarrow> coord_y f \<noteq> coord_y t"
    using h(1) by (cases f; cases t) auto
  show ?thesis
    unfolding Rook_IsValidMove_walk [OF h]
    using Rook_walk_Some [of "coord_x f" "coord_x t" board f t]
      Rook_walk_Some [of "coord_y f" "coord_y t" board f t] ne
    by auto
qed

lemma Bishop_loop_Some:
  "xs \<noteq> 0 \<Longrightarrow> tx = ix + xs * int n \<Longrightarrow> \<exists>r. Bishop_loop board tx xs ys ix iy = Some r"
proof (induction n arbitrary: ix iy)
  case 0
  then show ?case by (subst Bishop_loop.simps) auto
next
  case (Suc n)
  have tx': "tx = (ix + xs) + xs * int n" using Suc.prems(2) by (simp add: algebra_simps)
  obtain r where r: "Bishop_loop board tx xs ys (ix + xs) (iy + ys) = Some r"
    using Suc.IH [OF Suc.prems(1) tx'] by blast
  show ?case
    apply (subst Bishop_loop.simps)
    apply (simp only: r)
    by (auto split: sum.splits)
qed

lemma Bishop_IsValidMove_Some: "\<exists>r. Bishop_IsValidMove board f t = Some r"
proof (cases "f = t \<or> \<not> in_bounds t \<or> coord_x t = coord_x f \<or> coord_y t = coord_y f \<or>
   \<bar>coord_x f - coord_x t\<bar> \<noteq> \<bar>coord_y f - coord_y t\<bar>")
  case True
  then show ?thesis using Bishop_IsValidMove_early [of f t board] by auto
next
  case False
  then have h: "f \<noteq> t" "in_bounds t" "\<bar>coord_x f - coord_x t\<bar> = \<bar>coord_y f - coord_y t\<bar>"
    and nz: "coord_x t \<noteq> coord_x f" by auto
  define xs :: int where "xs = (if coord_x f < coord_x t then 1 else -1)"
  have xs0: "xs \<noteq> 0" by (simp add: xs_def)
  have tx: "coord_x t = (coord_x f + xs) + xs * int (nat (\<bar>coord_x f - coord_x t\<bar> - 1))"
    using nz by (auto simp: xs_def)
  show ?thesis
    unfolding Bishop_IsValidMove_walk [OF h]
    using Bishop_loop_Some [OF xs0 tx] by (simp add: xs_def)
qed

lemma Queen_IsValidMove_Some: "\<exists>r. Queen_IsValidMove board f t = Some r"
proof -
  consider (e) "f = t \<or> \<not> in_bounds t \<or>
      (\<bar>coord_x f - coord_x t\<bar> \<noteq> \<bar>coord_y f - coord_y t\<bar> \<and> coord_x f \<noteq> coord_x t \<and>
       coord_y f \<noteq> coord_y t)"
    | (d) "f \<noteq> t" "in_bounds t" "\<bar>coord_x f - coord_x t\<bar> = \<bar>coord_y f - coord_y t\<bar>"
    | (s) "f \<noteq> t" "in_bounds t" "coord_x f = coord_x t \<or> coord_y f = coord_y t"
    by blast
  then show ?thesis
  proof cases
    case e
    then show ?thesis using Queen_IsValidMove_early [of f t board] by auto
  next
    case d
    then show ?thesis
      using Queen_IsValidMove_diagonal [of f t board] Bishop_IsValidMove_Some [of board f t]
      by simp
  next
    case s
    then show ?thesis
      using Queen_IsValidMove_straight [of f t board] Rook_IsValidMove_Some [of board f t]
      by simp
  qed
qed

lemma IsValidMove_Some: "\<exists>r. IsValidMove a board f t = Some r"
proof -
  obtain k q where a: "a = Piece k q" by (cases a) blast
  have kg: "\<exists>r. King_IsValidMove board f t = Some r" by (cases f; cases t) auto
  have kn: "\<exists>r. Knight_IsValidMove board f t = Some r" by (cases f; cases t) auto
  have pw: "\<exists>r. Pawn_IsValidMove q board f t = Some r"
    by (cases f; cases t) (auto simp: Let_def split: sum.splits)
  show ?thesis
    using kg kn pw Queen_IsValidMove_Some [of board f t] Rook_IsValidMove_Some [of board f t]
      Bishop_IsValidMove_Some [of board f t]
    by (cases k) (simp_all add: a)
qed

lemma MovePiece_Some: "\<exists>r. MovePiece s p f t = Some r"
proof (cases "GetPieceAt s f")
  case (Inl e)
  then show ?thesis by (simp add: MovePiece_def)
next
  case (Inr ap)
  show ?thesis
  proof (cases ap)
    case None
    then show ?thesis using Inr by (simp add: MovePiece_def)
  next
    case (Some a)
    note a = Inr [unfolded Some]
    show ?thesis
    proof (cases "GetPieceAt s t")
      case (Inl e)
      then show ?thesis using a by (simp add: MovePiece_def)
    next
      case (Inr d)
      obtain r where r: "IsValidMove a (m_board s) f t = Some r"
        using IsValidMove_Some by blast
      show ?thesis
      proof (cases r)
        case (Inl e)
        then show ?thesis using a Inr r by (simp add: MovePiece_def)
      next
        case v: (Inr v)
        show ?thesis
        proof (cases "v \<and> (d = None \<or> (\<exists>k. d = Some k \<and> GetPlayer k \<noteq> p))")
          case True
          then show ?thesis using MovePiece_accept [OF a Inr, of p] r v by auto
        next
          case False
          then show ?thesis using MovePiece_reject [OF a Inr, of v p] r v by auto
        qed
      qed
    qed
  qed
qed

lemma SelectSpace_Some: "\<exists>r. SelectSpace s c = Some r"
proof -
  obtain r where r: "MovePiece s (m_cur_player s) (m_space_selected s) c = Some r"
    using MovePiece_Some by blast
  show ?thesis
    by (cases r; cases "GetPieceAt s c")
      (auto simp: SelectSpace_def r Let_def split: prod.splits)
qed

lemma clicks_Some: "\<exists>r. clicks s cs = Some r"
proof (induction cs arbitrary: s)
  case Nil
  show ?case by simp
next
  case (Cons c cs)
  obtain r where r: "SelectSpace s c = Some r" using SelectSpace_Some by blast
  show ?case using Cons.IH by (cases r) (auto simp: r)
qed

text \<open>What a returning \<open>MovePiece\<close> call has done.\<close>

lemma MovePiece_Returns_post:
  "MovePiece s p f t = Returns (ok, s') \<longrightarrow>
     (\<not> ok \<and> s' = s) \<or>
     (ok \<and> (\<exists>a d. GetPieceAt s f = Inr (Some a) \<and> GetPieceAt s t = Inr d \<and>
        s' = s\<lparr>m_game_over := (m_game_over s \<or> (\<exists>k. d = Some k \<and> PieceType k = King)),
               m_board := (m_board s)[nat (coord_y t * 8 + coord_x t) := Some a,
                                      nat (coord_y f * 8 + coord_x f) := None]\<rparr> \<and>
        (coord_y t * 8 + coord_x t \<noteq> coord_y f * 8 + coord_x f \<longrightarrow>
           m_board s' ! nat (coord_y t * 8 + coord_x t) = Some a \<and>
           m_board s' ! nat (coord_y f * 8 + coord_x f) = None \<and>
           (\<forall>i. i \<noteq> nat (coord_y t * 8 + coord_x t) \<and> i \<noteq> nat (coord_y f * 8 + coord_x f) \<longrightarrow>
              m_board s' ! i = m_board s ! i))))"
proof
  assume r: "MovePiece s p f t = Returns (ok, s')"
  from MovePiece_Returns_cases [OF r]
  show "(\<not> ok \<and> s' = s) \<or>
     (ok \<and> (\<exists>a d. GetPieceAt s f = Inr (Some a) \<and> GetPieceAt s t = Inr d \<and>
        s' = s\<lparr>m_game_over := (m_game_over s \<or> (\<exists>k. d = Some k \<and> PieceType k = King)),
               m_board := (m_board s)[nat (coord_y t * 8 + coord_x t) := Some a,
                                      nat (coord_y f * 8 + coord_x f) := None]\<rparr> \<and>
        (coord_y t * 8 + coord_x t \<noteq> coord_y f * 8 + coord_x f \<longrightarrow>
           m_board s' ! nat (coord_y t * 8 + coord_x t) = Some a \<and>
           m_board s' ! nat (coord_y f * 8 + coord_x f) = None \<and>
           (\<forall>i. i \<noteq> nat (coord_y t * 8 + coord_x t) \<and> i \<noteq> nat (coord_y f * 8 + coord_x f) \<longrightarrow>
              m_board s' ! i = m_board s ! i))))"
  proof
    assume "\<not> ok \<and> s' = s"
    then show ?thesis by simp
  next
    assume "ok \<and> (\<exists>a d. GetPieceAt s f = Inr (Some a) \<and> GetPieceAt s t = Inr d \<and>
        IsValidMove a (m_board s) f t = Returns True \<and>
        (d = None \<or> (\<exists>k. d = Some k \<and> GetPlayer k \<noteq> p)) \<and>
        s' = moved s f t a d)"
    then obtain a d where ok: ok and a: "GetPieceAt s f = Inr (Some a)"
      and d: "GetPieceAt s t = Inr d" and s': "s' = moved s f t a d"
      by blast
    have rng: "0 \<le> coord_y t * 8 + coord_x t" "coord_y t * 8 + coord_x t < int (length (m_board s))"
      "0 \<le> coord_y f * 8 + coord_x f" "coord_y f * 8 + coord_x f < int (length (m_board s))"
      using a d by (simp_all add: GetPieceAt_Inr)
    have go: "(case d of None \<Rightarrow> False | Some k \<Rightarrow> PieceType k = King) =
        (\<exists>k. d = Some k \<and> PieceType k = King)"
      by (cases d) simp_all
    have eq: "s' = s\<lparr>m_game_over := (m_game_over s \<or> (\<exists>k. d = Some k \<and> PieceType k = King)),
               m_board := (m_board s)[nat (coord_y t * 8 + coord_x t) := Some a,
                                      nat (coord_y f * 8 + coord_x f) := None]\<rparr>"
      unfolding s' moved_def go ..
    have cells: "coord_y t * 8 + coord_x t \<noteq> coord_y f * 8 + coord_x f \<longrightarrow>
           m_board s' ! nat (coord_y t * 8 + coord_x t) = Some a \<and>
           m_board s' ! nat (coord_y f * 8 + coord_x f) = None \<and>
           (\<forall>i. i \<noteq> nat (coord_y t * 8 + coord_x t) \<and> i \<noteq> nat (coord_y f * 8 + coord_x f) \<longrightarrow>
              m_board s' ! i = m_board s ! i)"
      using rng by (auto simp: eq nth_list_update)
    show ?thesis using ok a d eq cells by blast
  qed
qed

section \<open>Rook legality\<close>

text \<open>
  Claim C1. For every grid, origin \<open>f\<close> and destination \<open>t\<close>, \<open>Rook::IsValidMove\<close>
  returns false when \<open>f = t\<close>, when \<open>t\<close> is off the board, and when the move is neither
  horizontal nor vertical. It returns true exactly when none of these holds and every
  read \<open>board.at\<close> of a cell strictly between \<open>f\<close> and \<open>t\<close> on the moving axis yields a
  null pointer. On a grid of 64 cells and with \<open>f\<close> on the board the call always returns,
  and its value is that condition. Only strictly-between cells are examined: writing
  anything into the destination cell or the origin cell leaves the result unchanged.
  On every input the call terminates: it returns or \<open>board.at\<close> throws.
\<close>

theorem Rook_IsValidMove_legality:
  "(f = t \<or> \<not> in_bounds t \<or> (coord_x t \<noteq> coord_x f \<and> coord_y t \<noteq> coord_y f)
      \<longrightarrow> Rook_IsValidMove board f t = Returns False) \<and>
   (Rook_IsValidMove board f t = Returns True \<longleftrightarrow>
      f \<noteq> t \<and> in_bounds t \<and> (coord_x t = coord_x f \<or> coord_y t = coord_y f) \<and>
      (\<forall>i. (coord_x t \<noteq> coord_x f \<and> min (coord_x f) (coord_x t) < i \<and> i < max (coord_x f) (coord_x t)
             \<longrightarrow> board_at board (coord_y t * 8 + i) = Inr None) \<and>
           (coord_x t = coord_x f \<and> min (coord_y f) (coord_y t) < i \<and> i < max (coord_y f) (coord_y t)
             \<longrightarrow> board_at board (i * 8 + coord_x t) = Inr None))) \<and>
   (length board = 64 \<and> in_bounds f \<longrightarrow>
      Rook_IsValidMove board f t = Returns
        (f \<noteq> t \<and> in_bounds t \<and> (coord_x t = coord_x f \<or> coord_y t = coord_y f) \<and>
         (\<forall>i. (coord_x t \<noteq> coord_x f \<and> min (coord_x f) (coord_x t) < i \<and> i < max (coord_x f) (coord_x t)
                \<longrightarrow> board ! nat (coord_y t * 8 + i) = None) \<and>
              (coord_x t = coord_x f \<and> min (coord_y f) (coord_y t) < i \<and> i < max (coord_y f) (coord_y t)
                \<longrightarrow> board ! nat (i * 8 + coord_x t) = None)))) \<and>
   (length board = 64 \<and> in_bounds f \<and> in_bounds t \<longrightarrow>
      Rook_IsValidMove (board[nat (coord_y t * 8 + coord_x t) := v]) f t = Rook_IsValidMove board f t \<and>
      Rook_IsValidMove (board[nat (coord_y f * 8 + coord_x f) := v]) f t = Rook_IsValidMove board f t) \<and>
   (\<exists>r. Rook_IsValidMove board f t = Some r)"
  using Rook_IsValidMove_early [of f t board] Rook_IsValidMove_True_iff [of board f t]
    Rook_IsValidMove_in_bounds [of board f t] Rook_IsValidMove_endpoints [of board f t v]
    Rook_IsValidMove_Some [of board f t]
  by blast

theorem Rook_IsValidMove_legality_witness:
  "length initial_board = 64 \<and> in_bounds (BoardCoord 0 7) \<and> in_bounds (BoardCoord 0 5) \<and>
   Rook_IsValidMove initial_board (BoardCoord 0 7) (BoardCoord 0 4) = Returns False \<and>
   Rook_IsValidMove initial_board (BoardCoord 0 5) (BoardCoord 2 5) = Returns True \<and>
   Rook_IsValidMove initial_board (BoardCoord 0 5) (BoardCoord 0 5) = Returns False \<and>
   Rook_IsValidMove initial_board (BoardCoord 0 5) (BoardCoord 8 5) = Returns False \<and>
   Rook_IsValidMove initial_board (BoardCoord 0 5) (BoardCoord 1 4) = Returns False"
proof -
  have len: "length initial_board = 64" by (rule length_initial_board)
  have b1: "in_bounds (BoardCoord 0 7)" and b2: "in_bounds (BoardCoord 0 5)"
    by (simp_all add: in_bounds_def)
  have blocked: "\<not> (\<forall>i::int. 4 < i \<and> i < 7 \<longrightarrow> initial_board ! nat (i * 8) = None)"
  proof
    assume "\<forall>i::int. 4 < i \<and> i < 7 \<longrightarrow> initial_board ! nat (i * 8) = None"
    then have "(4::int) < 6 \<and> (6::int) < 7 \<longrightarrow> initial_board ! nat (6 * 8) = None" by (rule spec)
    then show False by (simp add: initial_board_nth_48)
  qed
  have free: "\<forall>i::int. 0 < i \<and> i < 2 \<longrightarrow> initial_board ! nat (40 + i) = None"
  proof (intro allI impI)
    fix i :: int assume "0 < i \<and> i < 2"
    then have "i = 1" by simp
    then show "initial_board ! nat (40 + i) = None" by (simp add: initial_board_nth_41)
  qed
  have r1: "Rook_IsValidMove initial_board (BoardCoord 0 7) (BoardCoord 0 4) = Returns False"
    using Rook_IsValidMove_legality [of "BoardCoord 0 7" "BoardCoord 0 4" initial_board] len b1 blocked
    by (simp add: in_bounds_def)
  have r2: "Rook_IsValidMove initial_board (BoardCoord 0 5) (BoardCoord 2 5) = Returns True"
    using Rook_IsValidMove_legality [of "BoardCoord 0 5" "BoardCoord 2 5" initial_board] len b2 free
    by (simp add: in_bounds_def)
  have r3: "Rook_IsValidMove initial_board (BoardCoord 0 5) (BoardCoord 0 5) = Returns False"
    using Rook_IsValidMove_legality [of "BoardCoord 0 5" "BoardCoord 0 5" initial_board] by simp
  have r4: "Rook_IsValidMove initial_board (BoardCoord 0 5) (BoardCoord 8 5) = Returns False"
    using Rook_IsValidMove_legality [of "BoardCoord 0 5" "BoardCoord 8 5" initial_board]
    by (simp add: in_bounds_def)
  have r5: "Rook_IsValidMove initial_board (BoardCoord 0 5) (BoardCoord 1 4) = Returns False"
    using Rook_IsValidMove_legality [of "BoardCoord 0 5" "BoardCoord 1 4" initial_board]
    by (simp add: in_bounds_def)
  show ?thesis using len b1 b2 r1 r2 r3 r4 r5 by simp
qed

section \<open>Pawn legality\<close>

text \<open>
  Claim C2. \<open>Pawn::IsValidMove\<close> returns false when the destination is off the board.
  With the destination on the board it returns false unless the row delta in the
  player's forward direction (White towards decreasing row, Black towards increasing
  row) is exactly 1 and the column delta is at most 1 in absolute value; on a grid of 64
  cells it then returns true exactly when, for a diagonal step, the destination cell is
  occupied (by a piece of either player) and, for a straight step, the destination cell
  is empty. A forward delta of 2 is always rejected.
\<close>

theorem Pawn_IsValidMove_legality:
  "(\<not> in_bounds t \<longrightarrow> Pawn_IsValidMove p board f t = Returns False) \<and>
   (\<not> ((if p = White then coord_y f - coord_y t else coord_y t - coord_y f) = 1 \<and>
        \<bar>coord_x t - coord_x f\<bar> \<le> 1)
      \<longrightarrow> Pawn_IsValidMove p board f t = Returns False) \<and>
   ((if p = White then coord_y f - coord_y t else coord_y t - coord_y f) = 2
      \<longrightarrow> Pawn_IsValidMove p board f t = Returns False) \<and>
   (length board = 64 \<and> in_bounds t \<longrightarrow>
      Pawn_IsValidMove p board f t = Returns
        ((if p = White then coord_y f - coord_y t else coord_y t - coord_y f) = 1 \<and>
         \<bar>coord_x t - coord_x f\<bar> \<le> 1 \<and>
         (if \<bar>coord_x t - coord_x f\<bar> = 1
          then board ! nat (coord_y t * 8 + coord_x t) \<noteq> None
          else board ! nat (coord_y t * 8 + coord_x t) = None)))"
proof -
  obtain fx fy tx ty where ft: "f = BoardCoord fx fy" "t = BoardCoord tx ty"
    by (cases f; cases t) blast
  have a: "\<not> in_bounds t \<longrightarrow> Pawn_IsValidMove p board f t = Returns False"
    by (auto simp: ft in_bounds_def)
  have b: "\<not> ((if p = White then coord_y f - coord_y t else coord_y t - coord_y f) = 1 \<and>
        \<bar>coord_x t - coord_x f\<bar> \<le> 1)
      \<longrightarrow> Pawn_IsValidMove p board f t = Returns False"
    by (simp add: ft Let_def)
  have c: "(if p = White then coord_y f - coord_y t else coord_y t - coord_y f) = 2
      \<longrightarrow> Pawn_IsValidMove p board f t = Returns False"
    by (simp add: ft Let_def)
  have d: "length board = 64 \<and> in_bounds t \<longrightarrow>
      Pawn_IsValidMove p board f t = Returns
        ((if p = White then coord_y f - coord_y t else coord_y t - coord_y f) = 1 \<and>
         \<bar>coord_x t - coord_x f\<bar> \<le> 1 \<and>
         (if \<bar>coord_x t - coord_x f\<bar> = 1
          then board ! nat (coord_y t * 8 + coord_x t) \<noteq> None
          else board ! nat (coord_y t * 8 + coord_x t) = None))"
  proof
    assume h: "length board = 64 \<and> in_bounds t"
    then have "board_index board (ty * 8 + tx) = Inr (board ! nat (ty * 8 + tx))"
      by (simp add: board_index_def in_bounds_def ft)
    then show "Pawn_IsValidMove p board f t = Returns
        ((if p = White then coord_y f - coord_y t else coord_y t - coord_y f) = 1 \<and>
         \<bar>coord_x t - coord_x f\<bar> \<le> 1 \<and>
         (if \<bar>coord_x t - coord_x f\<bar> = 1
          then board ! nat (coord_y t * 8 + coord_x t) \<noteq> None
          else board ! nat (coord_y t * 8 + coord_x t) = None))"
      using h by (auto simp: ft Let_def in_bounds_def)
  qed
  show ?thesis using a b c d by blast
qed

theorem Pawn_IsValidMove_legality_witness:
  "length initial_board = 64 \<and> in_bounds (BoardCoord 4 5) \<and> \<not> in_bounds (BoardCoord 4 8) \<and>
   Pawn_IsValidMove White initial_board (BoardCoord 4 6) (BoardCoord 4 5) = Returns True \<and>
   Pawn_IsValidMove White initial_board (BoardCoord 4 6) (BoardCoord 4 4) = Returns False \<and>
   Pawn_IsValidMove White initial_board (BoardCoord 4 6) (BoardCoord 3 5) = Returns False \<and>
   Pawn_IsValidMove White initial_board (BoardCoord 4 7) (BoardCoord 3 6) = Returns True \<and>
   Pawn_IsValidMove White initial_board (BoardCoord 4 6) (BoardCoord 4 7) = Returns False \<and>
   Pawn_IsValidMove Black initial_board (BoardCoord 4 1) (BoardCoord 4 2) = Returns True \<and>
   Pawn_IsValidMove Black initial_board (BoardCoord 4 7) (BoardCoord 4 8) = Returns False"
proof -
  have len: "length initial_board = 64" by (rule length_initial_board)
  have c44: "initial_board ! 44 = None" and c43: "initial_board ! 43 = None"
    and c51: "initial_board ! 51 = Some (Piece Pawn White)" and c20: "initial_board ! 20 = None"
    by (simp_all add: initial_board_def)
  have w1: "Pawn_IsValidMove White initial_board (BoardCoord 4 6) (BoardCoord 4 5) = Returns True"
    using Pawn_IsValidMove_legality [of "BoardCoord 4 5" White initial_board "BoardCoord 4 6"] len c44
    by (simp add: in_bounds_def)
  have w2: "Pawn_IsValidMove White initial_board (BoardCoord 4 6) (BoardCoord 4 4) = Returns False"
    using Pawn_IsValidMove_legality [of "BoardCoord 4 4" White initial_board "BoardCoord 4 6"]
    by simp
  have w3: "Pawn_IsValidMove White initial_board (BoardCoord 4 6) (BoardCoord 3 5) = Returns False"
    using Pawn_IsValidMove_legality [of "BoardCoord 3 5" White initial_board "BoardCoord 4 6"] len c43
    by (simp add: in_bounds_def)
  have w4: "Pawn_IsValidMove White initial_board (BoardCoord 4 7) (BoardCoord 3 6) = Returns True"
    using Pawn_IsValidMove_legality [of "BoardCoord 3 6" White initial_board "BoardCoord 4 7"] len c51
    by (simp add: in_bounds_def)
  have w5: "Pawn_IsValidMove White initial_board (BoardCoord 4 6) (BoardCoord 4 7) = Returns False"
    using Pawn_IsValidMove_legality [of "BoardCoord 4 7" White initial_board "BoardCoord 4 6"]
    by simp
  have w6: "Pawn_IsValidMove Black initial_board (BoardCoord 4 1) (BoardCoord 4 2) = Returns True"
    using Pawn_IsValidMove_legality [of "BoardCoord 4 2" Black initial_board "BoardCoord 4 1"] len c20
    by (simp add: in_bounds_def)
  have w7: "Pawn_IsValidMove Black initial_board (BoardCoord 4 7) (BoardCoord 4 8) = Returns False"
    using Pawn_IsValidMove_legality [of "BoardCoord 4 8" Black initial_board "BoardCoord 4 7"]
    by (simp add: in_bounds_def)
  show ?thesis using len w1 w2 w3 w4 w5 w6 w7 by (simp add: in_bounds_def)
qed

section \<open>Queen legality\<close>

text \<open>
  Claim C3. \<open>Queen::IsValidMove\<close> returns true exactly when \<open>Rook::IsValidMove\<close> or
  \<open>Bishop::IsValidMove\<close> returns true on the same arguments. It returns false when origin
  and destination coincide or the destination is off the board; on a diagonal move it
  is the bishop's check (and the rook's check is false), on a horizontal or vertical move
  it is the rook's check (and the bishop's check is false), and on any other move all
  three are false. On a grid of 64 cells with the origin on the board all three calls
  return, and the queen's value is the disjunction of the other two. On every input the
  call terminates.
\<close>

theorem Queen_IsValidMove_union:
  "(Queen_IsValidMove board f t = Returns True \<longleftrightarrow>
      Rook_IsValidMove board f t = Returns True \<or> Bishop_IsValidMove board f t = Returns True) \<and>
   (f = t \<or> \<not> in_bounds t \<longrightarrow> Queen_IsValidMove board f t = Returns False) \<and>
   (f \<noteq> t \<and> in_bounds t \<and> \<bar>coord_x f - coord_x t\<bar> = \<bar>coord_y f - coord_y t\<bar> \<longrightarrow>
      Queen_IsValidMove board f t = Bishop_IsValidMove board f t \<and>
      Rook_IsValidMove board f t = Returns False) \<and>
   (f \<noteq> t \<and> in_bounds t \<and> (coord_x f = coord_x t \<or> coord_y f = coord_y t) \<longrightarrow>
      Queen_IsValidMove board f t = Rook_IsValidMove board f t \<and>
      Bishop_IsValidMove board f t = Returns False) \<and>
   (\<bar>coord_x f - coord_x t\<bar> \<noteq> \<bar>coord_y f - coord_y t\<bar> \<and> coord_x f \<noteq> coord_x t \<and> coord_y f \<noteq> coord_y t \<longrightarrow>
      Queen_IsValidMove board f t = Returns False \<and>
      Rook_IsValidMove board f t = Returns False \<and>
      Bishop_IsValidMove board f t = Returns False) \<and>
   (length board = 64 \<and> in_bounds f \<longrightarrow>
      (\<exists>q r b. Queen_IsValidMove board f t = Returns q \<and> Rook_IsValidMove board f t = Returns r \<and>
         Bishop_IsValidMove board f t = Returns b \<and> q = (r \<or> b))) \<and>
   (\<exists>r. Queen_IsValidMove board f t = Some r)"
proof -
  have early: "f = t \<or> \<not> in_bounds t \<Longrightarrow>
      Queen_IsValidMove board f t = Returns False \<and> Rook_IsValidMove board f t = Returns False \<and>
      Bishop_IsValidMove board f t = Returns False"
    using Queen_IsValidMove_early [of f t board] Rook_IsValidMove_early [of f t board]
      Bishop_IsValidMove_early [of f t board] by blast
  have diag: "f \<noteq> t \<Longrightarrow> in_bounds t \<Longrightarrow> \<bar>coord_x f - coord_x t\<bar> = \<bar>coord_y f - coord_y t\<bar> \<Longrightarrow>
      Queen_IsValidMove board f t = Bishop_IsValidMove board f t \<and>
      Rook_IsValidMove board f t = Returns False"
  proof -
    assume h: "f \<noteq> t" "in_bounds t" "\<bar>coord_x f - coord_x t\<bar> = \<bar>coord_y f - coord_y t\<bar>"
    have "coord_x t \<noteq> coord_x f \<and> coord_y t \<noteq> coord_y f"
      using h(1,3) by (cases f; cases t) auto
    then show ?thesis
      using Queen_IsValidMove_diagonal [OF h, of board] Rook_IsValidMove_early [of f t board]
      by simp
  qed
  have straight: "f \<noteq> t \<Longrightarrow> in_bounds t \<Longrightarrow> coord_x f = coord_x t \<or> coord_y f = coord_y t \<Longrightarrow>
      Queen_IsValidMove board f t = Rook_IsValidMove board f t \<and>
      Bishop_IsValidMove board f t = Returns False"
    using Queen_IsValidMove_straight [of f t board] Bishop_IsValidMove_early [of f t board]
    by metis
  have other: "\<bar>coord_x f - coord_x t\<bar> \<noteq> \<bar>coord_y f - coord_y t\<bar> \<Longrightarrow> coord_x f \<noteq> coord_x t \<Longrightarrow>
      coord_y f \<noteq> coord_y t \<Longrightarrow>
      Queen_IsValidMove board f t = Returns False \<and> Rook_IsValidMove board f t = Returns False \<and>
      Bishop_IsValidMove board f t = Returns False"
    using Queen_IsValidMove_early [of f t board] Rook_IsValidMove_early [of f t board]
      Bishop_IsValidMove_early [of f t board] by metis
  have cs: "(f = t \<or> \<not> in_bounds t) \<or>
      (f \<noteq> t \<and> in_bounds t \<and> \<bar>coord_x f - coord_x t\<bar> = \<bar>coord_y f - coord_y t\<bar>) \<or>
      (f \<noteq> t \<and> in_bounds t \<and> (coord_x f = coord_x t \<or> coord_y f = coord_y t)) \<or>
      (\<bar>coord_x f - coord_x t\<bar> \<noteq> \<bar>coord_y f - coord_y t\<bar> \<and> coord_x f \<noteq> coord_x t \<and>
       coord_y f \<noteq> coord_y t)"
    by blast
  have same: "Queen_IsValidMove board f t = Returns False \<and> Rook_IsValidMove board f t = Returns False \<and>
        Bishop_IsValidMove board f t = Returns False \<or>
      Queen_IsValidMove board f t = Bishop_IsValidMove board f t \<and>
        Rook_IsValidMove board f t = Returns False \<or>
      Queen_IsValidMove board f t = Rook_IsValidMove board f t \<and>
        Bishop_IsValidMove board f t = Returns False"
    using cs early diag straight other by blast
  have union: "Queen_IsValidMove board f t = Returns True \<longleftrightarrow>
      Rook_IsValidMove board f t = Returns True \<or> Bishop_IsValidMove board f t = Returns True"
    using same by auto
  have total: "length board = 64 \<and> in_bounds f \<longrightarrow>
      (\<exists>q r b. Queen_IsValidMove board f t = Returns q \<and> Rook_IsValidMove board f t = Returns r \<and>
         Bishop_IsValidMove board f t = Returns b \<and> q = (r \<or> b))"
  proof
    assume a: "length board = 64 \<and> in_bounds f"
    obtain r where r: "Rook_IsValidMove board f t = Returns r"
      using Rook_IsValidMove_Returns [of board f t] a by blast
    obtain b where b: "Bishop_IsValidMove board f t = Returns b"
      using Bishop_IsValidMove_Returns [of board f t] a by blast
    show "\<exists>q r b. Queen_IsValidMove board f t = Returns q \<and> Rook_IsValidMove board f t = Returns r \<and>
         Bishop_IsValidMove board f t = Returns b \<and> q = (r \<or> b)"
      using same r b by auto
  qed
  show ?thesis
    using union early diag straight other total Queen_IsValidMove_Some [of board f t] by blast
qed

theorem Queen_IsValidMove_union_witness:
  "length initial_board = 64 \<and> in_bounds (BoardCoord 2 5) \<and> in_bounds (BoardCoord 5 2) \<and>
   BoardCoord 2 5 \<noteq> BoardCoord 5 2 \<and>
   Queen_IsValidMove initial_board (BoardCoord 2 5) (BoardCoord 5 2) = Returns True \<and>
   Bishop_IsValidMove initial_board (BoardCoord 2 5) (BoardCoord 5 2) = Returns True \<and>
   Rook_IsValidMove initial_board (BoardCoord 2 5) (BoardCoord 5 2) = Returns False \<and>
   Queen_IsValidMove initial_board (BoardCoord 3 7) (BoardCoord 3 4) = Returns False \<and>
   Queen_IsValidMove initial_board (BoardCoord 3 7) (BoardCoord 4 5) = Returns False \<and>
   Queen_IsValidMove initial_board (BoardCoord 3 7) (BoardCoord 3 7) = Returns False"
proof -
  have b: "Bishop_IsValidMove initial_board (BoardCoord 2 5) (BoardCoord 5 2) = Returns True"
    by code_simp
  have r: "Rook_IsValidMove initial_board (BoardCoord 3 7) (BoardCoord 3 4) = Returns False"
    by code_simp
  have d: "Queen_IsValidMove initial_board (BoardCoord 2 5) (BoardCoord 5 2) = Returns True \<and>
      Rook_IsValidMove initial_board (BoardCoord 2 5) (BoardCoord 5 2) = Returns False"
    using Queen_IsValidMove_union [of initial_board "BoardCoord 2 5" "BoardCoord 5 2"] b
    by (simp add: in_bounds_def)
  have s: "Queen_IsValidMove initial_board (BoardCoord 3 7) (BoardCoord 3 4) = Returns False"
    using Queen_IsValidMove_union [of initial_board "BoardCoord 3 7" "BoardCoord 3 4"] r
    by (simp add: in_bounds_def)
  have o: "Queen_IsValidMove initial_board (BoardCoord 3 7) (BoardCoord 4 5) = Returns False"
    using Queen_IsValidMove_union [of initial_board "BoardCoord 3 7" "BoardCoord 4 5"]
    by simp
  have e: "Queen_IsValidMove initial_board (BoardCoord 3 7) (BoardCoord 3 7) = Returns False"
    using Queen_IsValidMove_union [of initial_board "BoardCoord 3 7" "BoardCoord 3 7"]
    by simp
  show ?thesis
    using b d s o e length_initial_board by (simp add: in_bounds_def)
qed

section \<open>Self-capture\<close>

text \<open>
  Claim C4. \<open>MovePiece(player, from, to)\<close> returns true only if the origin holds a piece
  whose \<open>IsValidMove\<close> approves the move and the destination is empty or holds a piece of
  another player than \<open>player\<close>; conversely these conditions make it return true. When
  the destination holds a piece of \<open>player\<close>, every returning call returns false and
  leaves the model as it was, whatever the piece-level check says.
\<close>

theorem MovePiece_no_self_capture:
  "(MovePiece s p f t = Returns (True, s') \<longrightarrow>
      (\<exists>a. GetPieceAt s f = Inr (Some a) \<and> IsValidMove a (m_board s) f t = Returns True) \<and>
      (GetPieceAt s t = Inr None \<or> (\<exists>k. GetPieceAt s t = Inr (Some k) \<and> GetPlayer k \<noteq> p))) \<and>
   (GetPieceAt s f = Inr (Some a) \<and> IsValidMove a (m_board s) f t = Returns True \<and>
    (GetPieceAt s t = Inr None \<or> (\<exists>k. GetPieceAt s t = Inr (Some k) \<and> GetPlayer k \<noteq> p)) \<longrightarrow>
      (\<exists>s''. MovePiece s p f t = Returns (True, s''))) \<and>
   (GetPieceAt s t = Inr (Some k) \<and> GetPlayer k = p \<and> MovePiece s p f t = Returns (ok, s') \<longrightarrow>
      \<not> ok \<and> s' = s) \<and>
   (GetPieceAt s f = Inr (Some a) \<and> IsValidMove a (m_board s) f t = Returns True \<and>
    GetPieceAt s t = Inr (Some k) \<and> GetPlayer k = p \<longrightarrow>
      MovePiece s p f t = Returns (False, s))"
proof -
  have only_if: "MovePiece s p f t = Returns (True, s') \<longrightarrow>
      (\<exists>a. GetPieceAt s f = Inr (Some a) \<and> IsValidMove a (m_board s) f t = Returns True) \<and>
      (GetPieceAt s t = Inr None \<or> (\<exists>k. GetPieceAt s t = Inr (Some k) \<and> GetPlayer k \<noteq> p))"
    using MovePiece_Returns_cases [of s p f t True s'] by auto
  have "if": "GetPieceAt s f = Inr (Some a) \<and> IsValidMove a (m_board s) f t = Returns True \<and>
    (GetPieceAt s t = Inr None \<or> (\<exists>k. GetPieceAt s t = Inr (Some k) \<and> GetPlayer k \<noteq> p)) \<longrightarrow>
      (\<exists>s''. MovePiece s p f t = Returns (True, s''))"
    using MovePiece_accept [of s f a t None p] MovePiece_accept [of s f a t _ p] by blast
  have own: "GetPieceAt s t = Inr (Some k) \<and> GetPlayer k = p \<and> MovePiece s p f t = Returns (ok, s') \<longrightarrow>
      \<not> ok \<and> s' = s"
    using MovePiece_Returns_cases [of s p f t ok s'] by auto
  have own': "GetPieceAt s f = Inr (Some a) \<and> IsValidMove a (m_board s) f t = Returns True \<and>
    GetPieceAt s t = Inr (Some k) \<and> GetPlayer k = p \<longrightarrow>
      MovePiece s p f t = Returns (False, s)"
    using MovePiece_reject [of s f a t "Some k" True p] by auto
  show ?thesis using only_if "if" own own' by blast
qed

theorem MovePiece_no_self_capture_witness:
  "GetPieceAt BoardModel_new (BoardCoord 0 7) = Inr (Some (Piece Rook White)) \<and>
   GetPieceAt BoardModel_new (BoardCoord 0 6) = Inr (Some (Piece Pawn White)) \<and>
   IsValidMove (Piece Rook White) (m_board BoardModel_new) (BoardCoord 0 7) (BoardCoord 0 6) = Returns True \<and>
   MovePiece BoardModel_new White (BoardCoord 0 7) (BoardCoord 0 6) = Returns (False, BoardModel_new) \<and>
   GetPieceAt BoardModel_new (BoardCoord 4 6) = Inr (Some (Piece Pawn White)) \<and>
   GetPieceAt BoardModel_new (BoardCoord 4 5) = Inr None \<and>
   IsValidMove (Piece Pawn White) (m_board BoardModel_new) (BoardCoord 4 6) (BoardCoord 4 5) = Returns True \<and>
   (\<exists>s''. MovePiece BoardModel_new White (BoardCoord 4 6) (BoardCoord 4 5) = Returns (True, s''))"
proof -
  have g1: "GetPieceAt BoardModel_new (BoardCoord 0 7) = Inr (Some (Piece Rook White))"
    and g2: "GetPieceAt BoardModel_new (BoardCoord 0 6) = Inr (Some (Piece Pawn White))"
    and g3: "GetPieceAt BoardModel_new (BoardCoord 4 6) = Inr (Some (Piece Pawn White))"
    and g4: "GetPieceAt BoardModel_new (BoardCoord 4 5) = Inr None"
    by (simp_all add: GetPieceAt_def initial_board_def)
  have v1: "IsValidMove (Piece Rook White) (m_board BoardModel_new) (BoardCoord 0 7) (BoardCoord 0 6) = Returns True"
    by code_simp
  have v2: "IsValidMove (Piece Pawn White) (m_board BoardModel_new) (BoardCoord 4 6) (BoardCoord 4 5) = Returns True"
    by code_simp
  have m1: "MovePiece BoardModel_new White (BoardCoord 0 7) (BoardCoord 0 6) = Returns (False, BoardModel_new)"
    using MovePiece_no_self_capture [of BoardModel_new White "BoardCoord 0 7" "BoardCoord 0 6" _
        "Piece Rook White" "Piece Pawn White"] g1 g2 v1
    by simp
  have m2: "\<exists>s''. MovePiece BoardModel_new White (BoardCoord 4 6) (BoardCoord 4 5) = Returns (True, s'')"
    using MovePiece_no_self_capture [of BoardModel_new White "BoardCoord 4 6" "BoardCoord 4 5" _
        "Piece Pawn White"] g3 g4 v2
    by simp
  show ?thesis using g1 g2 g3 g4 v1 v2 m1 m2 by simp
qed

section \<open>Game over\<close>

text \<open>
  Claim C5. After an accepted move whose destination held a king, \<open>GameOver()\<close> is true.
  From then on every \<open>SelectSpace\<close> call, and every sequence of such calls, returns the
  model exactly as it was: grid, current player, selection flag and selected cell are
  frozen. The flag is never cleared: \<open>SelectSpace\<close> does nothing once it is set and a
  \<open>MovePiece\<close> call keeps it set. The same holds when the capturing move is made through
  \<open>SelectSpace\<close>.
\<close>

theorem GameOver_permanent:
  "(MovePiece s p f t = Returns (True, s') \<and> GetPieceAt s t = Inr (Some k) \<and> PieceType k = King \<longrightarrow>
      GameOver s' \<and> (\<forall>c. SelectSpace s' c = Returns s') \<and> (\<forall>cs. clicks s' cs = Returns s')) \<and>
   (\<not> GameOver s \<and> m_move_started s \<and> GetPieceAt s c = Inr (Some k) \<and> PieceType k = King \<and>
    MovePiece s (m_cur_player s) (m_space_selected s) c = Returns (True, s1) \<longrightarrow>
      (\<exists>s2. SelectSpace s c = Returns s2 \<and> GameOver s2 \<and> (\<forall>cs. clicks s2 cs = Returns s2))) \<and>
   (GameOver s \<longrightarrow> SelectSpace s c = Returns s \<and> clicks s cs = Returns s) \<and>
   (GameOver s \<and> MovePiece s p f t = Returns (ok, s') \<longrightarrow> GameOver s')"
proof -
  have cap: "\<And>s p f t s'. MovePiece s p f t = Returns (True, s') \<Longrightarrow> GetPieceAt s t = Inr (Some k) \<Longrightarrow>
      PieceType k = King \<Longrightarrow> GameOver s'"
  proof -
    fix s p f t s'
    assume "MovePiece s p f t = Returns (True, s')" "GetPieceAt s t = Inr (Some k)" "PieceType k = King"
    then show "GameOver s'"
      using MovePiece_Returns_cases [of s p f t True s'] by (auto simp: moved_def GameOver_def)
  qed
  have a: "MovePiece s p f t = Returns (True, s') \<and> GetPieceAt s t = Inr (Some k) \<and> PieceType k = King \<longrightarrow>
      GameOver s' \<and> (\<forall>c. SelectSpace s' c = Returns s') \<and> (\<forall>cs. clicks s' cs = Returns s')"
    using cap [of s p f t s'] SelectSpace_game_over [of s'] clicks_game_over [of s'] by blast
  have b: "\<not> GameOver s \<and> m_move_started s \<and> GetPieceAt s c = Inr (Some k) \<and> PieceType k = King \<and>
    MovePiece s (m_cur_player s) (m_space_selected s) c = Returns (True, s1) \<longrightarrow>
      (\<exists>s2. SelectSpace s c = Returns s2 \<and> GameOver s2 \<and> (\<forall>cs. clicks s2 cs = Returns s2))"
  proof
    assume h: "\<not> GameOver s \<and> m_move_started s \<and> GetPieceAt s c = Inr (Some k) \<and> PieceType k = King \<and>
      MovePiece s (m_cur_player s) (m_space_selected s) c = Returns (True, s1)"
    then have g1: "GameOver s1" using cap [of s "m_cur_player s" "m_space_selected s" c s1] by blast
    define s2 where "s2 = s1\<lparr>m_move_started := False,
        m_cur_player := (if m_cur_player s1 = White then Black else White)\<rparr>"
    have r: "SelectSpace s c = Returns s2" using h by (simp add: SelectSpace_pending s2_def)
    have g2: "GameOver s2" using g1 by (simp add: s2_def GameOver_def)
    show "\<exists>s2. SelectSpace s c = Returns s2 \<and> GameOver s2 \<and> (\<forall>cs. clicks s2 cs = Returns s2)"
      using r g2 clicks_game_over [OF g2] by blast
  qed
  have c: "GameOver s \<longrightarrow> SelectSpace s c = Returns s \<and> clicks s cs = Returns s"
    using SelectSpace_game_over [of s c] clicks_game_over [of s cs] by blast
  have d: "GameOver s \<and> MovePiece s p f t = Returns (ok, s') \<longrightarrow> GameOver s'"
    using MovePiece_keeps(5) [of s p f t ok s'] by (auto simp: GameOver_def)
  show ?thesis using a b c d by blast
qed

theorem GameOver_permanent_witness:
  "\<exists>s s2.
     clicks BoardModel_new [BoardCoord 4 6, BoardCoord 4 5, BoardCoord 5 1, BoardCoord 5 2,
        BoardCoord 3 7, BoardCoord 7 3, BoardCoord 0 1, BoardCoord 0 2, BoardCoord 7 3] = Returns s \<and>
     \<not> GameOver s \<and> m_move_started s \<and>
     GetPieceAt s (BoardCoord 4 0) = Inr (Some (Piece King Black)) \<and>
     SelectSpace s (BoardCoord 4 0) = Returns s2 \<and> GameOver s2 \<and>
     clicks s2 [BoardCoord 4 1, BoardCoord 4 0, BoardCoord 0 6, BoardCoord 0 5] = Returns s2"
proof -
  define s where "s = \<lparr>m_board = initial_board[52 := None, 44 := Some (Piece Pawn White),
                 13 := None, 21 := Some (Piece Pawn Black),
                 59 := None, 31 := Some (Piece Queen White),
                 8 := None, 16 := Some (Piece Pawn Black)],
            m_move_started = True, m_space_selected = BoardCoord 7 3,
            m_game_over = False, m_cur_player = White\<rparr>"
  have reach: "clicks BoardModel_new [BoardCoord 4 6, BoardCoord 4 5, BoardCoord 5 1, BoardCoord 5 2,
        BoardCoord 3 7, BoardCoord 7 3, BoardCoord 0 1, BoardCoord 0 2, BoardCoord 7 3] = Returns s"
    unfolding s_def by code_simp
  have st: "\<not> GameOver s" "m_move_started s" "m_cur_player s = White"
    "m_space_selected s = BoardCoord 7 3"
    by (simp_all add: s_def GameOver_def)
  have gk: "GetPieceAt s (BoardCoord 4 0) = Inr (Some (Piece King Black))"
    unfolding s_def by code_simp
  have gq: "GetPieceAt s (BoardCoord 7 3) = Inr (Some (Piece Queen White))"
    unfolding s_def by code_simp
  have v: "IsValidMove (Piece Queen White) (m_board s) (BoardCoord 7 3) (BoardCoord 4 0) = Returns True"
    unfolding s_def by code_simp
  have m: "MovePiece s (m_cur_player s) (m_space_selected s) (BoardCoord 4 0) =
      Returns (True, moved s (BoardCoord 7 3) (BoardCoord 4 0) (Piece Queen White) (Some (Piece King Black)))"
    using MovePiece_accept [OF gq gk v, of White] by (simp add: st)
  have "\<exists>s2. SelectSpace s (BoardCoord 4 0) = Returns s2 \<and> GameOver s2 \<and>
      (\<forall>cs. clicks s2 cs = Returns s2)"
    using GameOver_permanent [of s White "BoardCoord 7 3" "BoardCoord 4 0" s "Piece King Black"
        "BoardCoord 4 0"
        "moved s (BoardCoord 7 3) (BoardCoord 4 0) (Piece Queen White) (Some (Piece King Black))"
        "[]" False]
      st gk m
    by simp
  then obtain s2 where s2: "SelectSpace s (BoardCoord 4 0) = Returns s2" "GameOver s2"
    "\<forall>cs. clicks s2 cs = Returns s2"
    by blast
  show ?thesis using reach st gk s2 by blast
qed

section \<open>Turn alternation\<close>

text \<open>
  Claim C6. The game starts with White to move and no selection. In every state reached
  by clicks a pending selection means that the game is not over. When \<open>SelectSpace\<close> is
  called with a pending selection (game not over) and returns, the selection is
  cleared; the call has invoked \<open>MovePiece\<close> for the current player from the selected
  cell, and the current player is the other player if that call returned true and is
  unchanged if it returned false, in which case nothing but the selection flag has
  changed. The call returns whenever \<open>MovePiece\<close> does, and does so for every sequence of
  clicks on the board; in any state and for any coordinate it terminates.
\<close>

theorem SelectSpace_turn:
  "m_cur_player BoardModel_new = White \<and> \<not> m_move_started BoardModel_new \<and>
   \<not> GameOver BoardModel_new \<and>
   (clicks BoardModel_new cs = Returns s \<and> m_move_started s \<longrightarrow> \<not> GameOver s) \<and>
   (\<not> GameOver s \<and> m_move_started s \<and> SelectSpace s c = Returns s' \<longrightarrow>
      \<not> m_move_started s' \<and>
      (\<exists>ok s1. MovePiece s (m_cur_player s) (m_space_selected s) c = Returns (ok, s1) \<and>
         m_cur_player s' =
           (if ok then (if m_cur_player s = White then Black else White) else m_cur_player s) \<and>
         (\<not> ok \<longrightarrow> s' = s\<lparr>m_move_started := False\<rparr>))) \<and>
   (\<not> GameOver s \<and> m_move_started s \<and>
    MovePiece s (m_cur_player s) (m_space_selected s) c = Returns (ok, s1) \<longrightarrow>
      (\<exists>s'. SelectSpace s c = Returns s')) \<and>
   ((\<forall>x\<in>set cs. in_bounds x) \<and> in_bounds c \<longrightarrow>
      (\<exists>s s'. clicks BoardModel_new cs = Returns s \<and> SelectSpace s c = Returns s')) \<and>
   (\<exists>r. SelectSpace s c = Some r)"
proof -
  have reach: "clicks BoardModel_new cs = Returns s \<and> m_move_started s \<longrightarrow> \<not> GameOver s"
    using clicks_selection_valid [OF _ selection_valid_new, of cs s]
    by (auto simp: selection_valid_def GameOver_def)
  have step: "\<not> GameOver s \<and> m_move_started s \<and> SelectSpace s c = Returns s' \<longrightarrow>
      \<not> m_move_started s' \<and>
      (\<exists>ok s1. MovePiece s (m_cur_player s) (m_space_selected s) c = Returns (ok, s1) \<and>
         m_cur_player s' =
           (if ok then (if m_cur_player s = White then Black else White) else m_cur_player s) \<and>
         (\<not> ok \<longrightarrow> s' = s\<lparr>m_move_started := False\<rparr>))"
  proof
    assume h: "\<not> GameOver s \<and> m_move_started s \<and> SelectSpace s c = Returns s'"
    then obtain ok s1 where m: "MovePiece s (m_cur_player s) (m_space_selected s) c = Returns (ok, s1)"
      and s': "s' = s1\<lparr>m_move_started := False,
                      m_cur_player := (if ok then (if m_cur_player s1 = White then Black else White)
                                       else m_cur_player s1)\<rparr>"
      by (auto simp: SelectSpace_pending split: option.splits sum.splits prod.splits)
    have cp: "m_cur_player s1 = m_cur_player s" using MovePiece_keeps(1) [OF m] .
    have rej: "\<not> ok \<longrightarrow> s1 = s" using MovePiece_Returns_cases [OF m] by auto
    show "\<not> m_move_started s' \<and>
      (\<exists>ok s1. MovePiece s (m_cur_player s) (m_space_selected s) c = Returns (ok, s1) \<and>
         m_cur_player s' =
           (if ok then (if m_cur_player s = White then Black else White) else m_cur_player s) \<and>
         (\<not> ok \<longrightarrow> s' = s\<lparr>m_move_started := False\<rparr>))"
      using m s' cp rej by auto
  qed
  have ret: "\<not> GameOver s \<and> m_move_started s \<and>
    MovePiece s (m_cur_player s) (m_space_selected s) c = Returns (ok, s1) \<longrightarrow>
      (\<exists>s'. SelectSpace s c = Returns s')"
    by (simp add: SelectSpace_pending)
  have total: "(\<forall>x\<in>set cs. in_bounds x) \<and> in_bounds c \<longrightarrow>
      (\<exists>s s'. clicks BoardModel_new cs = Returns s \<and> SelectSpace s c = Returns s')"
  proof
    assume h: "(\<forall>x\<in>set cs. in_bounds x) \<and> in_bounds c"
    then obtain s2 where s2: "clicks BoardModel_new cs = Returns s2" "well_formed s2"
      using clicks_Returns [OF well_formed_new, of cs] by blast
    then show "\<exists>s s'. clicks BoardModel_new cs = Returns s \<and> SelectSpace s c = Returns s'"
      using SelectSpace_Returns [of s2 c] h by blast
  qed
  show ?thesis
    using reach step ret total SelectSpace_Some [of s c] by (simp add: GameOver_def)
qed

theorem SelectSpace_turn_witness:
  "clicks BoardModel_new [BoardCoord 4 6] =
     Returns (BoardModel_new\<lparr>m_space_selected := BoardCoord 4 6, m_move_started := True\<rparr>) \<and>
   SelectSpace (BoardModel_new\<lparr>m_space_selected := BoardCoord 4 6, m_move_started := True\<rparr>)
       (BoardCoord 4 4) =
     Returns (BoardModel_new\<lparr>m_space_selected := BoardCoord 4 6, m_move_started := False\<rparr>) \<and>
   (\<exists>s'. SelectSpace (BoardModel_new\<lparr>m_space_selected := BoardCoord 4 6, m_move_started := True\<rparr>)
            (BoardCoord 4 5) = Returns s' \<and>
         m_cur_player s' = Black \<and> \<not> m_move_started s') \<and>
   in_bounds (BoardCoord 4 6) \<and> in_bounds (BoardCoord 4 5) \<and> in_bounds (BoardCoord 0 1) \<and>
   in_bounds (BoardCoord 0 2) \<and>
   (\<exists>s s'. clicks BoardModel_new [BoardCoord 4 6, BoardCoord 4 5, BoardCoord 0 1] = Returns s \<and>
      SelectSpace s (BoardCoord 0 2) = Returns s')"
proof -
  define sel where "sel = BoardModel_new\<lparr>m_space_selected := BoardCoord 4 6, m_move_started := True\<rparr>"
  have sel_simps: "m_board sel = initial_board" "m_move_started sel" "\<not> GameOver sel"
    "m_cur_player sel = White" "m_space_selected sel = BoardCoord 4 6"
    by (simp_all add: sel_def GameOver_def)
  have g3: "GetPieceAt sel (BoardCoord 4 6) = Inr (Some (Piece Pawn White))"
    and g4: "GetPieceAt sel (BoardCoord 4 5) = Inr None"
    and g5: "GetPieceAt sel (BoardCoord 4 4) = Inr None"
    and g0: "GetPieceAt BoardModel_new (BoardCoord 4 6) = Inr (Some (Piece Pawn White))"
    by (simp_all add: GetPieceAt_def sel_simps initial_board_def)
  have v2: "IsValidMove (Piece Pawn White) initial_board (BoardCoord 4 6) (BoardCoord 4 5) = Returns True"
    by code_simp
  have v3: "IsValidMove (Piece Pawn White) initial_board (BoardCoord 4 6) (BoardCoord 4 4) = Returns False"
    by code_simp
  have c: "clicks BoardModel_new [BoardCoord 4 6] = Returns sel"
    using g0 by (simp add: SelectSpace_idle GameOver_def sel_def)
  have m_rej: "MovePiece sel White (BoardCoord 4 6) (BoardCoord 4 4) = Returns (False, sel)"
    using MovePiece_reject [OF g3 g5, of False White] v3 by (simp add: sel_simps)
  have m_acc: "MovePiece sel White (BoardCoord 4 6) (BoardCoord 4 5) =
      Returns (True, moved sel (BoardCoord 4 6) (BoardCoord 4 5) (Piece Pawn White) None)"
    using MovePiece_accept [OF g3 g4, of White] v2 by (simp add: sel_simps)
  note ret4 = SelectSpace_turn [of "[]" sel "BoardCoord 4 4" sel False sel,
      THEN conjunct2, THEN conjunct2, THEN conjunct2, THEN conjunct2, THEN conjunct2, THEN conjunct1]
  have "\<exists>s'. SelectSpace sel (BoardCoord 4 4) = Returns s'"
    using ret4 m_rej sel_simps by simp
  then obtain s1 where s1: "SelectSpace sel (BoardCoord 4 4) = Returns s1" by blast
  note step4 = SelectSpace_turn [of "[]" sel "BoardCoord 4 4" s1 False sel,
      THEN conjunct2, THEN conjunct2, THEN conjunct2, THEN conjunct2, THEN conjunct1]
  have "\<exists>ok s1'. MovePiece sel White (BoardCoord 4 6) (BoardCoord 4 4) = Returns (ok, s1') \<and>
         (\<not> ok \<longrightarrow> s1 = sel\<lparr>m_move_started := False\<rparr>)"
    using step4 s1 sel_simps by auto
  then have r1: "s1 = sel\<lparr>m_move_started := False\<rparr>"
    using m_rej by auto
  note ret5 = SelectSpace_turn [of "[]" sel "BoardCoord 4 5" sel True
        "moved sel (BoardCoord 4 6) (BoardCoord 4 5) (Piece Pawn White) None",
      THEN conjunct2, THEN conjunct2, THEN conjunct2, THEN conjunct2, THEN conjunct2, THEN conjunct1]
  have "\<exists>s'. SelectSpace sel (BoardCoord 4 5) = Returns s'"
    using ret5 m_acc sel_simps by simp
  then obtain s2 where s2: "SelectSpace sel (BoardCoord 4 5) = Returns s2" by blast
  note step5 = SelectSpace_turn [of "[]" sel "BoardCoord 4 5" s2 False sel,
      THEN conjunct2, THEN conjunct2, THEN conjunct2, THEN conjunct2, THEN conjunct1]
  have pre5: "\<not> GameOver sel \<and> m_move_started sel \<and> SelectSpace sel (BoardCoord 4 5) = Returns s2"
    using s2 sel_simps(2,3) by simp
  note post5 = step5 [THEN mp, OF pre5]
  then obtain ok s1' where ns: "\<not> m_move_started s2"
    and mv: "MovePiece sel (m_cur_player sel) (m_space_selected sel) (BoardCoord 4 5) = Returns (ok, s1')"
    and cp: "m_cur_player s2 =
           (if ok then (if m_cur_player sel = White then Black else White) else m_cur_player sel)"
    by blast
  have "ok" using mv m_acc by (simp add: sel_simps)
  then have r2: "m_cur_player s2 = Black \<and> \<not> m_move_started s2"
    using cp ns by (simp add: sel_simps)
  have inb: "\<forall>x\<in>set [BoardCoord 4 6, BoardCoord 4 5, BoardCoord 0 1]. in_bounds x"
    by (simp add: in_bounds_def)
  note total = SelectSpace_turn [of "[BoardCoord 4 6, BoardCoord 4 5, BoardCoord 0 1]" sel
        "BoardCoord 0 2" sel False sel,
      THEN conjunct2, THEN conjunct2, THEN conjunct2, THEN conjunct2, THEN conjunct2, THEN conjunct2,
      THEN conjunct1]
  have tot: "\<exists>s s'. clicks BoardModel_new [BoardCoord 4 6, BoardCoord 4 5, BoardCoord 0 1] = Returns s \<and>
      SelectSpace s (BoardCoord 0 2) = Returns s'"
    using total inb by (simp add: in_bounds_def)
  have "clicks BoardModel_new [BoardCoord 4 6] = Returns sel \<and>
      SelectSpace sel (BoardCoord 4 4) = Returns (sel\<lparr>m_move_started := False\<rparr>) \<and>
      (\<exists>s'. SelectSpace sel (BoardCoord 4 5) = Returns s' \<and> m_cur_player s' = Black \<and>
         \<not> m_move_started s')"
    using c s1 r1 s2 r2 by blast
  then show ?thesis
    using tot unfolding sel_def by (simp add: in_bounds_def)
qed

section \<open>King legality\<close>

text \<open>
  Claim C7. For every grid, origin and destination, \<open>King::IsValidMove\<close> returns true
  exactly when the destination is on the board and both coordinate deltas are at most 1
  in absolute value. The null move is included: with a coordinate \<open>c\<close> on the board the
  king's check accepts the move from \<open>c\<close> to \<open>c\<close>, while the checks of rook, bishop and
  queen reject it.
\<close>

theorem King_IsValidMove_legality:
  "King_IsValidMove board f t =
     Returns (in_bounds t \<and> \<bar>coord_x f - coord_x t\<bar> \<le> 1 \<and> \<bar>coord_y f - coord_y t\<bar> \<le> 1) \<and>
   (in_bounds c \<longrightarrow> King_IsValidMove board c c = Returns True) \<and>
   Rook_IsValidMove board c c = Returns False \<and>
   Bishop_IsValidMove board c c = Returns False \<and>
   Queen_IsValidMove board c c = Returns False"
proof -
  have k: "\<And>f t. King_IsValidMove board f t =
     Returns (in_bounds t \<and> \<bar>coord_x f - coord_x t\<bar> \<le> 1 \<and> \<bar>coord_y f - coord_y t\<bar> \<le> 1)"
  proof -
    fix f t
    show "King_IsValidMove board f t =
     Returns (in_bounds t \<and> \<bar>coord_x f - coord_x t\<bar> \<le> 1 \<and> \<bar>coord_y f - coord_y t\<bar> \<le> 1)"
      by (cases f; cases t) (auto simp: in_bounds_def)
  qed
  have "in_bounds c \<longrightarrow> King_IsValidMove board c c = Returns True"
    by (simp add: k)
  moreover have "Rook_IsValidMove board c c = Returns False"
    by (simp add: Rook_IsValidMove_def)
  moreover have "Bishop_IsValidMove board c c = Returns False"
    by (simp add: Bishop_IsValidMove_def)
  moreover have "Queen_IsValidMove board c c = Returns False"
    by (simp add: Queen_IsValidMove_def)
  ultimately show ?thesis using k [of f t] by blast
qed

theorem King_IsValidMove_legality_witness:
  "in_bounds (BoardCoord 4 7) \<and>
   King_IsValidMove initial_board (BoardCoord 4 7) (BoardCoord 4 7) = Returns True \<and>
   King_IsValidMove initial_board (BoardCoord 4 7) (BoardCoord 5 6) = Returns True \<and>
   King_IsValidMove initial_board (BoardCoord 4 7) (BoardCoord 4 5) = Returns False \<and>
   King_IsValidMove initial_board (BoardCoord 4 7) (BoardCoord 4 8) = Returns False \<and>
   Rook_IsValidMove initial_board (BoardCoord 4 7) (BoardCoord 4 7) = Returns False \<and>
   Bishop_IsValidMove initial_board (BoardCoord 4 7) (BoardCoord 4 7) = Returns False \<and>
   Queen_IsValidMove initial_board (BoardCoord 4 7) (BoardCoord 4 7) = Returns False"
  using King_IsValidMove_legality [of initial_board "BoardCoord 4 7" "BoardCoord 4 7" "BoardCoord 4 7"]
    King_IsValidMove_legality [of initial_board "BoardCoord 4 7" "BoardCoord 5 6" "BoardCoord 4 7"]
    King_IsValidMove_legality [of initial_board "BoardCoord 4 7" "BoardCoord 4 5" "BoardCoord 4 7"]
    King_IsValidMove_legality [of initial_board "BoardCoord 4 7" "BoardCoord 4 8" "BoardCoord 4 7"]
  by (simp add: in_bounds_def)

section \<open>Destinations off the board\<close>

text \<open>
  Claim C8. For every grid, origin and moving player, and every destination with a
  component outside \<open>[0,8)\<close>, each of the six legality functions returns false, and so
  does the virtual call on any piece.
\<close>

theorem IsValidMove_out_of_bounds:
  "\<not> in_bounds t \<Longrightarrow>
   King_IsValidMove board f t = Returns False \<and>
   Queen_IsValidMove board f t = Returns False \<and>
   Rook_IsValidMove board f t = Returns False \<and>
   Bishop_IsValidMove board f t = Returns False \<and>
   Knight_IsValidMove board f t = Returns False \<and>
   Pawn_IsValidMove p board f t = Returns False \<and>
   IsValidMove piece board f t = Returns False"
proof -
  assume out: "\<not> in_bounds t"
  obtain fx fy tx ty where ft: "f = BoardCoord fx fy" "t = BoardCoord tx ty"
    by (cases f; cases t) blast
  have tst: "tx \<ge> 8 \<or> tx < 0 \<or> ty \<ge> 8 \<or> ty < 0"
    using out by (auto simp: in_bounds_def ft)
  have k: "King_IsValidMove board f t = Returns False" using tst by (simp add: ft)
  have n: "Knight_IsValidMove board f t = Returns False" using tst by (simp add: ft)
  have pw: "\<And>q. Pawn_IsValidMove q board f t = Returns False" using tst by (simp add: ft)
  have q: "Queen_IsValidMove board f t = Returns False"
    using out Queen_IsValidMove_early [of f t board] by simp
  have r: "Rook_IsValidMove board f t = Returns False"
    using out Rook_IsValidMove_early [of f t board] by simp
  have b: "Bishop_IsValidMove board f t = Returns False"
    using out Bishop_IsValidMove_early [of f t board] by simp
  have v: "IsValidMove piece board f t = Returns False"
    using k q r b n pw by (cases piece; cases "PieceType piece") auto
  show ?thesis using k q r b n pw v by simp
qed

theorem IsValidMove_out_of_bounds_witness:
  "\<not> in_bounds (BoardCoord 8 3) \<and>
   King_IsValidMove initial_board (BoardCoord 7 3) (BoardCoord 8 3) = Returns False \<and>
   Queen_IsValidMove initial_board (BoardCoord 7 3) (BoardCoord 8 3) = Returns False \<and>
   Rook_IsValidMove initial_board (BoardCoord 7 3) (BoardCoord 8 3) = Returns False \<and>
   Bishop_IsValidMove initial_board (BoardCoord 7 3) (BoardCoord 8 3) = Returns False \<and>
   Knight_IsValidMove initial_board (BoardCoord 7 3) (BoardCoord 8 3) = Returns False \<and>
   Pawn_IsValidMove White initial_board (BoardCoord 7 3) (BoardCoord 8 3) = Returns False \<and>
   IsValidMove (Piece Knight Black) initial_board (BoardCoord 7 3) (BoardCoord 8 3) = Returns False \<and>
   Knight_IsValidMove initial_board (BoardCoord 7 3) (BoardCoord 8 5) = Returns False"
proof -
  have out: "\<not> in_bounds (BoardCoord 8 3)" by (simp add: in_bounds_def)
  have out': "\<not> in_bounds (BoardCoord 8 5)" by (simp add: in_bounds_def)
  show ?thesis
    using out IsValidMove_out_of_bounds [OF out, of initial_board "BoardCoord 7 3" White "Piece Knight Black"]
      IsValidMove_out_of_bounds [OF out', of initial_board "BoardCoord 7 3" White "Piece Knight Black"]
    by simp
qed

section \<open>Atomicity of a move\<close>

text \<open>
  Claim C9. Every \<open>MovePiece\<close> call terminates: it returns, or it is stopped by an
  assertion or an exception (in the source, before the first write). A returning call
  either returns false and leaves the whole model unchanged, or returns true and has performed all of its writes: the game-over flag is
  set if the destination held a king (and otherwise keeps its value), the destination
  cell receives the moving piece and then the origin cell is cleared; nothing else
  changes. When origin and destination are different cells, the destination then holds
  the piece, the origin is empty and every other cell is as before.
\<close>

theorem MovePiece_atomic:
  "(\<exists>r. MovePiece s p f t = Some r) \<and>
   (MovePiece s p f t = Returns (ok, s') \<longrightarrow>
     (\<not> ok \<and> s' = s) \<or>
     (ok \<and> (\<exists>a d. GetPieceAt s f = Inr (Some a) \<and> GetPieceAt s t = Inr d \<and>
        s' = s\<lparr>m_game_over := (m_game_over s \<or> (\<exists>k. d = Some k \<and> PieceType k = King)),
               m_board := (m_board s)[nat (coord_y t * 8 + coord_x t) := Some a,
                                      nat (coord_y f * 8 + coord_x f) := None]\<rparr> \<and>
        (coord_y t * 8 + coord_x t \<noteq> coord_y f * 8 + coord_x f \<longrightarrow>
           m_board s' ! nat (coord_y t * 8 + coord_x t) = Some a \<and>
           m_board s' ! nat (coord_y f * 8 + coord_x f) = None \<and>
           (\<forall>i. i \<noteq> nat (coord_y t * 8 + coord_x t) \<and> i \<noteq> nat (coord_y f * 8 + coord_x f) \<longrightarrow>
              m_board s' ! i = m_board s ! i)))))"
  using MovePiece_Some [of s p f t] MovePiece_Returns_post [of s p f t ok s'] by (rule conjI)

theorem MovePiece_atomic_witness:
  "(\<exists>s'. MovePiece BoardModel_new White (BoardCoord 4 6) (BoardCoord 4 5) = Returns (True, s') \<and>
      m_board s' ! 44 = Some (Piece Pawn White) \<and> m_board s' ! 52 = None \<and>
      m_board s' ! 60 = m_board BoardModel_new ! 60 \<and> \<not> m_game_over s') \<and>
   MovePiece BoardModel_new White (BoardCoord 4 6) (BoardCoord 4 4) = Returns (False, BoardModel_new)"
proof -
  have g3: "GetPieceAt BoardModel_new (BoardCoord 4 6) = Inr (Some (Piece Pawn White))"
    and g4: "GetPieceAt BoardModel_new (BoardCoord 4 5) = Inr None"
    and g5: "GetPieceAt BoardModel_new (BoardCoord 4 4) = Inr None"
    by (simp_all add: GetPieceAt_def initial_board_def)
  have v2: "IsValidMove (Piece Pawn White) (m_board BoardModel_new) (BoardCoord 4 6) (BoardCoord 4 5) = Returns True"
    by code_simp
  have v3: "IsValidMove (Piece Pawn White) (m_board BoardModel_new) (BoardCoord 4 6) (BoardCoord 4 4) = Returns False"
    by code_simp
  obtain s1 where m1: "MovePiece BoardModel_new White (BoardCoord 4 6) (BoardCoord 4 5) = Returns (True, s1)"
    using MovePiece_accept [OF g3 g4 v2, of White] by simp
  have p1: "m_board s1 ! 44 = Some (Piece Pawn White) \<and> m_board s1 ! 52 = None \<and>
      m_board s1 ! 60 = m_board BoardModel_new ! 60 \<and> \<not> m_game_over s1"
    using MovePiece_atomic [of BoardModel_new White "BoardCoord 4 6" "BoardCoord 4 5" True s1] m1 g3 g4
    by auto
  have "\<exists>s2. MovePiece BoardModel_new White (BoardCoord 4 6) (BoardCoord 4 4) = Returns (False, s2)"
    using MovePiece_reject [OF g3 g5 v3, of White] by simp
  then obtain s2 where m2: "MovePiece BoardModel_new White (BoardCoord 4 6) (BoardCoord 4 4) = Returns (False, s2)"
    by blast
  have p2: "s2 = BoardModel_new"
    using MovePiece_atomic [of BoardModel_new White "BoardCoord 4 6" "BoardCoord 4 4" False s2] m2
    by simp
  show ?thesis using m1 p1 m2 p2 by auto
qed

section \<open>Null moves end to end\<close>

text \<open>
  Claim C10. When the cell \<open>c\<close> holds a piece of player \<open>p\<close>, \<open>MovePiece(p, c, c)\<close> returns
  false and leaves the model unchanged: the destination occupant is the moving piece
  itself. Hence the king's acceptance of the null move never reaches the board through
  \<open>SelectSpace\<close>: in a state with a pending selection of the mover's own piece, and so
  in every state reached from the initial one by clicks, clicking the selected cell
  again only clears the selection.
\<close>

theorem null_move_rejected:
  "(GetPieceAt s c = Inr (Some a) \<and> GetPlayer a = p \<longrightarrow>
      MovePiece s p c c = Returns (False, s)) \<and>
   (\<not> GameOver s \<and> m_move_started s \<and>
    GetPieceAt s (m_space_selected s) = Inr (Some a) \<and> GetPlayer a = m_cur_player s \<longrightarrow>
      SelectSpace s (m_space_selected s) = Returns (s\<lparr>m_move_started := False\<rparr>)) \<and>
   (clicks BoardModel_new cs = Returns s \<and> m_move_started s \<longrightarrow>
      SelectSpace s (m_space_selected s) = Returns (s\<lparr>m_move_started := False\<rparr>))"
proof -
  have reach: "clicks BoardModel_new cs = Returns s \<and> m_move_started s \<longrightarrow>
      SelectSpace s (m_space_selected s) = Returns (s\<lparr>m_move_started := False\<rparr>)"
  proof
    assume h: "clicks BoardModel_new cs = Returns s \<and> m_move_started s"
    then have "selection_valid s"
      using clicks_selection_valid [OF _ selection_valid_new] by blast
    then obtain b where "\<not> GameOver s" "GetPieceAt s (m_space_selected s) = Inr (Some b)"
      "GetPlayer b = m_cur_player s"
      using h by (auto simp: selection_valid_def GameOver_def split: sum.splits option.splits)
    then show "SelectSpace s (m_space_selected s) = Returns (s\<lparr>m_move_started := False\<rparr>)"
      using h SelectSpace_reselect by blast
  qed
  show ?thesis
    using MovePiece_null [of s c a p] SelectSpace_reselect [of s a] reach by blast
qed

theorem null_move_rejected_witness:
  "GetPieceAt BoardModel_new (BoardCoord 4 7) = Inr (Some (Piece King White)) \<and>
   King_IsValidMove (m_board BoardModel_new) (BoardCoord 4 7) (BoardCoord 4 7) = Returns True \<and>
   MovePiece BoardModel_new White (BoardCoord 4 7) (BoardCoord 4 7) = Returns (False, BoardModel_new) \<and>
   clicks BoardModel_new [BoardCoord 4 7] =
     Returns (BoardModel_new\<lparr>m_space_selected := BoardCoord 4 7, m_move_started := True\<rparr>) \<and>
   SelectSpace (BoardModel_new\<lparr>m_space_selected := BoardCoord 4 7, m_move_started := True\<rparr>)
       (BoardCoord 4 7) =
     Returns (BoardModel_new\<lparr>m_space_selected := BoardCoord 4 7, m_move_started := False\<rparr>)"
proof -
  have g: "GetPieceAt BoardModel_new (BoardCoord 4 7) = Inr (Some (Piece King White))"
    by (simp add: GetPieceAt_def initial_board_def)
  have k: "King_IsValidMove (m_board BoardModel_new) (BoardCoord 4 7) (BoardCoord 4 7) = Returns True"
    by simp
  have m: "MovePiece BoardModel_new White (BoardCoord 4 7) (BoardCoord 4 7) = Returns (False, BoardModel_new)"
    using null_move_rejected [of BoardModel_new "BoardCoord 4 7" "Piece King White" White] g
    by simp
  have c: "clicks BoardModel_new [BoardCoord 4 7] =
     Returns (BoardModel_new\<lparr>m_space_selected := BoardCoord 4 7, m_move_started := True\<rparr>)"
    using g by (simp add: SelectSpace_idle GameOver_def)
  have r: "SelectSpace (BoardModel_new\<lparr>m_space_selected := BoardCoord 4 7, m_move_started := True\<rparr>)
       (BoardCoord 4 7) =
     Returns (BoardModel_new\<lparr>m_space_selected := BoardCoord 4 7, m_move_started := False\<rparr>)"
    using null_move_rejected [of "BoardModel_new\<lparr>m_space_selected := BoardCoord 4 7, m_move_started := True\<rparr>"
        _ _ _ "[BoardCoord 4 7]"] c
    by simp
  show ?thesis using g k m c r by simp
qed

end
